theory Spec2Isabelle
  imports Main "HOL-Library.Multiset"
begin

section \<open>Wire and API types (frontend/src/types/api.ts)\<close>

text \<open>
  JavaScript numbers that carry identifiers, sequence numbers and counts are integers here;
  JSON payloads (\<open>Record<string, any>\<close>) are kept as their text.
\<close>

type_synonym json = string

datatype MessageRole = user | assistant

record Chart =
  c_id :: string
  c_chart_type :: string
  c_chart_config :: json
  c_sequence :: int
  c_created_at :: string

record Message =
  m_id :: int
  m_session_id :: string
  m_role :: MessageRole
  m_content :: string
  m_sequence :: int
  m_metadata :: "json option"
  m_created_at :: string
  m_charts :: "Chart list"

record MessageChunkEvent =
  content :: string
  is_final :: bool

record ChartReadyEvent =
  chart_id :: string
  chart_type :: string
  chart_config :: json
  sequence :: int

record MessageCompleteEvent =
  message_id :: int
  mc_sequence :: int
  total_charts :: int

record ErrorEvent =
  error_code :: string
  error_message :: string

section \<open>ChatContainer (frontend/src/components/Chat/ChatContainer.tsx)\<close>

text \<open>The temporary assistant message shown while a response streams in.\<close>

record StreamingMessage =
  sm_content :: string
  sm_charts :: "Chart list"

record ChatContainer =
  messages :: "Message list"
  isLoading :: bool
  isSending :: bool
  loadError :: "string option"
  streamingMessage :: "StreamingMessage option"

text \<open>
  The chart object built inside \<open>onChartReady\<close>; \<open>now\<close> stands for
  \<open>new Date().toISOString()\<close> at the time the event is handled.
\<close>

definition chart_of_event :: "string \<Rightarrow> ChartReadyEvent \<Rightarrow> Chart" where
  "chart_of_event now data =
     \<lparr>c_id = chart_id data, c_chart_type = chart_type data,
      c_chart_config = chart_config data, c_sequence = sequence data,
      c_created_at = now\<rparr>"

text \<open>
  \<open>onChartReady\<close>: the functional update passed to \<open>setStreamingMessage\<close>. With no streaming
  message (\<open>!prev\<close>) it returns \<open>prev\<close>; otherwise it spreads \<open>prev.charts\<close> and puts the new
  chart last.
\<close>

definition onChartReady :: "string \<Rightarrow> ChartReadyEvent \<Rightarrow> ChatContainer \<Rightarrow> ChatContainer" where
  "onChartReady now data st =
     st\<lparr>streamingMessage :=
          (case streamingMessage st of
             None \<Rightarrow> None
           | Some prev \<Rightarrow> Some (prev\<lparr>sm_charts := sm_charts prev @ [chart_of_event now data]\<rparr>))\<rparr>"

text \<open>A run of \<open>chart_ready\<close> events, each with the time it is handled at, in arrival order.\<close>

fun onChartReady_all :: "(string \<times> ChartReadyEvent) list \<Rightarrow> ChatContainer \<Rightarrow> ChatContainer" where
  "onChartReady_all [] st = st"
| "onChartReady_all ((now, data) # evs) st = onChartReady_all evs (onChartReady now data st)"

section \<open>The store (specs/001-agent-conversation-system/data-model.md)\<close>

text \<open>
  The PostgreSQL tables as lists of rows in insertion order. \<open>INTEGER\<close> columns hold
  values up to \<open>2147483647\<close>; PostgreSQL raises "integer out of range" beyond that, it does
  not wrap. Timestamps are natural numbers, UUIDs are strings.
\<close>

record session_row =
  s_id :: string
  s_user_id :: int
  s_title :: "string option"
  s_created_at :: nat
  s_updated_at :: nat
  s_deleted_at :: "nat option"
  s_message_count :: int

record message_row =
  msg_id :: int
  msg_session_id :: string
  msg_role :: MessageRole
  msg_content :: string
  msg_created_at :: nat
  msg_sequence :: int
  msg_metadata :: "json option"

record chart_row =
  ch_id :: string
  ch_message_id :: int
  ch_chart_type :: string
  ch_chart_config :: json
  ch_created_at :: nat
  ch_sequence :: int

record db =
  sessions_tbl :: "session_row list"
  messages_tbl :: "message_row list"
  charts_tbl :: "chart_row list"
  messages_id_seq :: int

datatype db_error =
    ForeignKeyViolation
  | UniqueViolation
  | IntegerOutOfRange
  | TransactionAborted

definition empty_db :: db where
  "empty_db = \<lparr>sessions_tbl = [], messages_tbl = [], charts_tbl = [], messages_id_seq = 1\<rparr>"

definition int4_max :: int where
  "int4_max = 2147483647"

definition session_messages :: "db \<Rightarrow> string \<Rightarrow> message_row list" where
  "session_messages d sid = filter (\<lambda>m. msg_session_id m = sid) (messages_tbl d)"

text \<open>SQL \<open>MAX\<close> over a column: \<open>NULL\<close> on no rows.\<close>

fun sql_max :: "int list \<Rightarrow> int option" where
  "sql_max [] = None"
| "sql_max (x # xs) = (case sql_max xs of None \<Rightarrow> Some x | Some m \<Rightarrow> Some (max x m))"

definition coalesce :: "'a option \<Rightarrow> 'a \<Rightarrow> 'a" where
  "coalesce v d = (case v of None \<Rightarrow> d | Some x \<Rightarrow> x)"

text \<open>
  \<open>SELECT COALESCE(MAX(sequence), -1) + 1 FROM messages WHERE session_id = NEW.session_id\<close>
\<close>

definition next_sequence :: "db \<Rightarrow> string \<Rightarrow> int" where
  "next_sequence d sid = coalesce (sql_max (map msg_sequence (session_messages d sid))) (- 1) + 1"

text \<open>
  \<open>UPDATE sessions SET message_count = message_count + 1, updated_at = CURRENT_TIMESTAMP
  WHERE id = NEW.session_id\<close>
\<close>

definition bump_session :: "nat \<Rightarrow> string \<Rightarrow> session_row \<Rightarrow> session_row" where
  "bump_session now sid s =
     (if s_id s = sid then s\<lparr>s_message_count := s_message_count s + 1, s_updated_at := now\<rparr>
      else s)"

text \<open>
  The trigger function \<open>increment_message_sequence\<close>, run \<open>BEFORE INSERT\<close> for each row: it
  overwrites \<open>NEW.sequence\<close>, whatever the statement supplied, and bumps the session's counter.
  It returns the row to insert and the updated sessions table.
\<close>

definition increment_message_sequence ::
  "db \<Rightarrow> nat \<Rightarrow> message_row \<Rightarrow> db_error + (message_row \<times> session_row list)" where
  "increment_message_sequence d now new =
     (let sq = next_sequence d (msg_session_id new) in
      if int4_max < sq then Inl IntegerOutOfRange
      else if \<exists>s \<in> set (sessions_tbl d).
                s_id s = msg_session_id new \<and> int4_max < s_message_count s + 1
        then Inl IntegerOutOfRange
      else Inr (new\<lparr>msg_sequence := sq\<rparr>,
                map (bump_session now (msg_session_id new)) (sessions_tbl d)))"

text \<open>
  \<open>INSERT INTO messages (session_id, role, content, metadata) VALUES (...)\<close>. The id comes
  from the \<open>BIGSERIAL\<close> sequence, the trigger fills in \<open>sequence\<close>, and the foreign key on
  \<open>session_id\<close> is checked. A statement that raises leaves every table as it was.
\<close>

definition insert_message ::
  "db \<Rightarrow> nat \<Rightarrow> string \<Rightarrow> MessageRole \<Rightarrow> string \<Rightarrow> json option \<Rightarrow> db_error + (message_row \<times> db)" where
  "insert_message d now sid role body metadata =
     (let new = \<lparr>msg_id = messages_id_seq d, msg_session_id = sid, msg_role = role,
                 msg_content = body, msg_created_at = now, msg_sequence = 0,
                 msg_metadata = metadata\<rparr>
      in case increment_message_sequence d now new of
           Inl e \<Rightarrow> Inl e
         | Inr (row, sessions') \<Rightarrow>
             if sid \<notin> s_id ` set (sessions_tbl d) then Inl ForeignKeyViolation
             else Inr (row, d\<lparr>sessions_tbl := sessions',
                              messages_tbl := messages_tbl d @ [row],
                              messages_id_seq := messages_id_seq d + 1\<rparr>))"

text \<open>\<open>INSERT INTO charts (message_id, chart_type, chart_config, sequence) VALUES (...)\<close>\<close>

definition insert_chart ::
  "db \<Rightarrow> nat \<Rightarrow> string \<Rightarrow> int \<Rightarrow> string \<Rightarrow> json \<Rightarrow> int \<Rightarrow> db_error + db" where
  "insert_chart d now uuid mid ctype config sq =
     (if mid \<notin> msg_id ` set (messages_tbl d) then Inl ForeignKeyViolation
      else if uuid \<in> ch_id ` set (charts_tbl d) then Inl UniqueViolation
      else Inr (d\<lparr>charts_tbl := charts_tbl d @
                 [\<lparr>ch_id = uuid, ch_message_id = mid, ch_chart_type = ctype,
                   ch_chart_config = config, ch_created_at = now, ch_sequence = sq\<rparr>]\<rparr>))"

text \<open>\<open>INSERT INTO sessions (user_id, title) VALUES (...)\<close> with the generated UUID.\<close>

definition insert_session :: "db \<Rightarrow> nat \<Rightarrow> string \<Rightarrow> string option \<Rightarrow> db_error + db" where
  "insert_session d now sid title =
     (if sid \<in> s_id ` set (sessions_tbl d) then Inl UniqueViolation
      else Inr (d\<lparr>sessions_tbl := sessions_tbl d @
                 [\<lparr>s_id = sid, s_user_id = 1, s_title = title, s_created_at = now,
                   s_updated_at = now, s_deleted_at = None, s_message_count = 0\<rparr>]\<rparr>))"

text \<open>
  \<open>DELETE FROM sessions WHERE ...\<close> for one session: \<open>ON DELETE CASCADE\<close> removes its
  messages and their charts.
\<close>

definition delete_session :: "db \<Rightarrow> string \<Rightarrow> db" where
  "delete_session d sid =
     d\<lparr>sessions_tbl := filter (\<lambda>s. s_id s \<noteq> sid) (sessions_tbl d),
       messages_tbl := filter (\<lambda>m. msg_session_id m \<noteq> sid) (messages_tbl d),
       charts_tbl :=
         filter (\<lambda>c. ch_message_id c \<notin> msg_id ` set (session_messages d sid)) (charts_tbl d)\<rparr>"

text \<open>
  A rolled back transaction undoes its row changes; values drawn from the \<open>BIGSERIAL\<close>
  sequence are not given back.
\<close>

definition rollback :: "db \<Rightarrow> db \<Rightarrow> db" where
  "rollback before after = before\<lparr>messages_id_seq := messages_id_seq after\<rparr>"

text \<open>
  What clients do to the store over time. A turn writes a message with a plain insert; a turn
  that fails after its insert, or a retry that gives up, is the same insert inside a
  transaction that is rolled back. A statement that raises changes nothing.
\<close>

datatype db_op =
    CreateSession nat string "string option"
  | InsertMessage nat string MessageRole string "json option"
  | InsertMessageRolledBack nat string MessageRole string "json option"
  | InsertChart nat string int string json int
  | DeleteSession string

fun apply_op :: "db \<Rightarrow> db_op \<Rightarrow> db" where
  "apply_op d (CreateSession now sid title) =
     (case insert_session d now sid title of Inl e \<Rightarrow> d | Inr d' \<Rightarrow> d')"
| "apply_op d (InsertMessage now sid role body metadata) =
     (case insert_message d now sid role body metadata of
        Inl e \<Rightarrow> rollback d (d\<lparr>messages_id_seq := messages_id_seq d + 1\<rparr>)
      | Inr (row, d') \<Rightarrow> d')"
| "apply_op d (InsertMessageRolledBack now sid role body metadata) =
     (case insert_message d now sid role body metadata of
        Inl e \<Rightarrow> rollback d (d\<lparr>messages_id_seq := messages_id_seq d + 1\<rparr>)
      | Inr (row, d') \<Rightarrow> rollback d d')"
| "apply_op d (InsertChart now uuid mid ctype config sq) =
     (case insert_chart d now uuid mid ctype config sq of Inl e \<Rightarrow> d | Inr d' \<Rightarrow> d')"
| "apply_op d (DeleteSession sid) = delete_session d sid"

definition run_ops :: "db_op list \<Rightarrow> db" where
  "run_ops ops = foldl apply_op empty_db ops"

text \<open>
  The shape of one session's sequence column: in insertion order it counts up from 0.
\<close>

definition seq_inv :: "db \<Rightarrow> bool" where
  "seq_inv d = (\<forall>sid. map msg_sequence (session_messages d sid) =
                        map int [0..<length (session_messages d sid)])"

subsection \<open>The session history query\<close>

text \<open>
  \<open>SELECT m.id, m.role, m.content, m.created_at, m.sequence,
     json_agg(json_build_object('id', c.id, 'type', c.chart_type, 'config', c.chart_config,
       'sequence', c.sequence) ORDER BY c.sequence) FILTER (WHERE c.id IS NOT NULL) AS charts
   FROM messages m LEFT JOIN charts c ON m.id = c.message_id
   WHERE m.session_id = ... GROUP BY m.id, m.role, m.content, m.created_at, m.sequence
   ORDER BY m.sequence\<close>

  One result row per message (\<open>m.id\<close> is the primary key, so every group is one message);
  \<open>charts\<close> is \<open>NULL\<close> for a message without charts.
\<close>

record chart_json =
  cj_id :: string
  cj_type :: string
  cj_config :: json
  cj_sequence :: int

record history_row =
  h_id :: int
  h_role :: MessageRole
  h_content :: string
  h_created_at :: nat
  h_sequence :: int
  h_charts :: "chart_json list option"

definition chart_json_of :: "chart_row \<Rightarrow> chart_json" where
  "chart_json_of c =
     \<lparr>cj_id = ch_id c, cj_type = ch_chart_type c, cj_config = ch_chart_config c,
      cj_sequence = ch_sequence c\<rparr>"

definition message_charts :: "db \<Rightarrow> int \<Rightarrow> chart_row list" where
  "message_charts d mid = filter (\<lambda>c. ch_message_id c = mid) (charts_tbl d)"

text \<open>
  One evaluation of the query: rows with equal sort keys stay in table order. SQL leaves the
  order of such rows open, so \<open>is_history_result\<close> below says which results the query may
  return at all.
\<close>

definition json_agg_charts :: "db \<Rightarrow> int \<Rightarrow> chart_json list option" where
  "json_agg_charts d mid =
     (let cs = message_charts d mid in
      if cs = [] then None else Some (map chart_json_of (sort_key ch_sequence cs)))"

definition history_row_of :: "db \<Rightarrow> message_row \<Rightarrow> history_row" where
  "history_row_of d m =
     \<lparr>h_id = msg_id m, h_role = msg_role m, h_content = msg_content m,
      h_created_at = msg_created_at m, h_sequence = msg_sequence m,
      h_charts = json_agg_charts d (msg_id m)\<rparr>"

definition select_history :: "db \<Rightarrow> string \<Rightarrow> history_row list" where
  "select_history d sid = map (history_row_of d) (sort_key msg_sequence (session_messages d sid))"

text \<open>The columns the query groups by, of a message row and of a result row.\<close>

type_synonym group_key = "int \<times> MessageRole \<times> string \<times> nat \<times> int"

definition message_columns :: "message_row \<Rightarrow> group_key" where
  "message_columns m = (msg_id m, msg_role m, msg_content m, msg_created_at m, msg_sequence m)"

definition group_columns :: "history_row \<Rightarrow> group_key" where
  "group_columns r = (h_id r, h_role r, h_content r, h_created_at r, h_sequence r)"

definition key_sequence :: "group_key \<Rightarrow> int" where
  "key_sequence k = snd (snd (snd (snd k)))"

text \<open>
  Any answer the query may give: the aggregated charts of a message are its chart rows in some
  order that is ascending in \<open>sequence\<close>; the rows are the session's messages in some order
  that is ascending in \<open>sequence\<close>.
\<close>

definition charts_agg_ok :: "db \<Rightarrow> int \<Rightarrow> chart_json list option \<Rightarrow> bool" where
  "charts_agg_ok d mid agg =
     (case agg of
        None \<Rightarrow> message_charts d mid = []
      | Some cs \<Rightarrow> message_charts d mid \<noteq> [] \<and>
                   mset cs = mset (map chart_json_of (message_charts d mid)) \<and>
                   sorted (map cj_sequence cs))"

definition is_history_result :: "db \<Rightarrow> string \<Rightarrow> history_row list \<Rightarrow> bool" where
  "is_history_result d sid rows =
     (mset (map group_columns rows) = mset (map message_columns (session_messages d sid)) \<and>
      sorted (map h_sequence rows) \<and>
      (\<forall>r \<in> set rows. charts_agg_ok d (h_id r) (h_charts r)))"

definition chart_ordinals :: "history_row \<Rightarrow> int list option" where
  "chart_ordinals r = map_option (map cj_sequence) (h_charts r)"

section \<open>The useSSE hook (src/unnamed/part_001, imported as hooks/useSSE)\<close>

text \<open>
  The hook's React state and refs, together with the part of the browser it drives: the
  EventSource objects it has created (numbered in creation order, each with its
  \<open>readyState\<close>), the timeouts it has set and that have neither fired nor been cleared, and
  the option callbacks it has invoked. Each recorded callback carries the number of the
  EventSource whose listener made the call.
\<close>

datatype ready_state = CONNECTING | OPEN | CLOSED

text \<open>
  The texts the hook puts into \<open>error\<close>: the server's \<open>error_message\<close>, the retry notice
  (delay in milliseconds, attempt, maximum) and the notice that retries are used up.
\<close>

datatype error_text =
    ServerMessage string
  | RetryNotice nat nat nat
  | RetriesExhausted

record UseSSEOptions =
  reconnectDelay :: nat
  maxReconnectAttempts :: nat

definition default_options :: UseSSEOptions where
  "default_options = \<lparr>reconnectDelay = 3000, maxReconnectAttempts = 3\<rparr>"

datatype callback =
    OnMessageChunk nat MessageChunkEvent
  | OnChartReady nat ChartReadyEvent
  | OnMessageComplete nat MessageCompleteEvent
  | OnError nat ErrorEvent
  | OnConnectionError nat

record sse =
  isConnected :: bool
  isConnecting :: bool
  error :: "error_text option"
  accumulatedContent :: string
  eventSourceRef :: "nat option"
  reconnectAttemptsRef :: nat
  reconnectTimeoutRef :: "nat option"
  readyState :: "nat \<Rightarrow> ready_state"
  sources :: "(string \<times> string) list"
  timers :: "(nat \<times> string \<times> string) list"
  next_timer :: nat
  called :: "callback list"

definition initial :: sse where
  "initial =
     \<lparr>isConnected = False, isConnecting = False, error = None, accumulatedContent = [],
      eventSourceRef = None, reconnectAttemptsRef = 0, reconnectTimeoutRef = None,
      readyState = (\<lambda>_. CLOSED), sources = [], timers = [], next_timer = 1, called = []\<rparr>"

text \<open>\<open>eventSource.close()\<close> and \<open>clearTimeout(id)\<close>.\<close>

definition close :: "nat \<Rightarrow> sse \<Rightarrow> sse" where
  "close e s = s\<lparr>readyState := (readyState s)(e := CLOSED)\<rparr>"

definition clearTimeout :: "nat \<Rightarrow> sse \<Rightarrow> sse" where
  "clearTimeout t s = s\<lparr>timers := filter (\<lambda>x. fst x \<noteq> t) (timers s)\<rparr>"

definition disconnect :: "sse \<Rightarrow> sse" where
  "disconnect s =
     (let s1 = (case eventSourceRef s of
                  None \<Rightarrow> s
                | Some e \<Rightarrow> (close e s)\<lparr>eventSourceRef := None\<rparr>);
          s2 = (case reconnectTimeoutRef s1 of
                  None \<Rightarrow> s1
                | Some t \<Rightarrow> (clearTimeout t s1)\<lparr>reconnectTimeoutRef := None\<rparr>)
      in s2\<lparr>isConnected := False, isConnecting := False, reconnectAttemptsRef := 0\<rparr>)"

text \<open>
  \<open>connect(sessionId, query)\<close>: the new EventSource is opened on
  \<open>/sessions/{sessionId}/stream?query=...\<close>; it starts in state \<open>CONNECTING\<close>.
\<close>

definition connect :: "string \<Rightarrow> string \<Rightarrow> sse \<Rightarrow> sse" where
  "connect sessionId query s =
     (let s1 = disconnect s; e = length (sources s1)
      in s1\<lparr>error := None, accumulatedContent := [], isConnecting := True,
            sources := sources s1 @ [(sessionId, query)],
            readyState := (readyState s1)(e := CONNECTING),
            eventSourceRef := Some e\<rparr>)"

definition resetContent :: "sse \<Rightarrow> sse" where
  "resetContent s = s\<lparr>accumulatedContent := []\<rparr>"

text \<open>
  The listeners registered by \<open>connect\<close> on EventSource \<open>e\<close>. Event data is \<open>None\<close> where
  \<open>JSON.parse(event.data)\<close> throws; the \<open>catch\<close> then swallows the event.
\<close>

definition on_open :: "nat \<Rightarrow> sse \<Rightarrow> sse" where
  "on_open e s = s\<lparr>isConnected := True, isConnecting := False, reconnectAttemptsRef := 0\<rparr>"

definition on_message_chunk :: "nat \<Rightarrow> MessageChunkEvent option \<Rightarrow> sse \<Rightarrow> sse" where
  "on_message_chunk e data s =
     (case data of
        None \<Rightarrow> s
      | Some d \<Rightarrow> s\<lparr>accumulatedContent := accumulatedContent s @ content d,
                     called := called s @ [OnMessageChunk e d]\<rparr>)"

definition on_chart_ready :: "nat \<Rightarrow> ChartReadyEvent option \<Rightarrow> sse \<Rightarrow> sse" where
  "on_chart_ready e data s =
     (case data of
        None \<Rightarrow> s
      | Some d \<Rightarrow> s\<lparr>called := called s @ [OnChartReady e d]\<rparr>)"

definition on_message_complete :: "nat \<Rightarrow> MessageCompleteEvent option \<Rightarrow> sse \<Rightarrow> sse" where
  "on_message_complete e data s =
     (case data of
        None \<Rightarrow> s
      | Some d \<Rightarrow>
          (let s1 = s\<lparr>called := called s @ [OnMessageComplete e d]\<rparr>;
               s2 = (case eventSourceRef s1 of
                       None \<Rightarrow> s1
                     | Some r \<Rightarrow> (close r s1)\<lparr>eventSourceRef := None\<rparr>)
           in s2\<lparr>isConnected := False, isConnecting := False\<rparr>))"

text \<open>The listener for events named \<open>error\<close> (added with \<open>addEventListener\<close>).\<close>

definition on_error_event :: "nat \<Rightarrow> ErrorEvent option \<Rightarrow> sse \<Rightarrow> sse" where
  "on_error_event e data s =
     (case data of
        None \<Rightarrow> s
      | Some d \<Rightarrow>
          disconnect (s\<lparr>error := Some (ServerMessage (error_message d)),
                        called := called s @ [OnError e d]\<rparr>))"

text \<open>
  \<open>eventSource.onerror\<close>. \<open>setTimeout\<close> hands out a fresh id and the timeout stays pending
  until it fires or is cleared; the id written to \<open>reconnectTimeoutRef\<close> replaces whatever
  the ref held.
\<close>

definition onerror :: "UseSSEOptions \<Rightarrow> nat \<Rightarrow> sse \<Rightarrow> sse" where
  "onerror opts e s =
     (if readyState s e = CLOSED then s\<lparr>isConnected := False, isConnecting := False\<rparr>
      else
        (let s1 = s\<lparr>isConnected := False, isConnecting := False,
                     called := called s @ [OnConnectionError e]\<rparr>
         in if reconnectAttemptsRef s1 < maxReconnectAttempts opts then
              (let n = reconnectAttemptsRef s1 + 1; t = next_timer s1
               in s1\<lparr>reconnectAttemptsRef := n,
                     error := Some (RetryNotice (reconnectDelay opts) n (maxReconnectAttempts opts)),
                     timers := timers s1 @ [(t, sources s1 ! e)],
                     next_timer := t + 1,
                     reconnectTimeoutRef := Some t\<rparr>)
            else disconnect (s1\<lparr>error := Some RetriesExhausted\<rparr>)))"

text \<open>
  What reaches the hook. Events of an EventSource name it by its number. An event named
  \<open>error\<close> that the server sends and the browser's own connection error are both events of
  type \<open>error\<close>: each runs the \<open>error\<close> listener and then \<open>onerror\<close>, in the order they were
  registered. Before a connection error the browser sets \<open>readyState\<close>: \<open>CLOSED\<close> when it
  gives up, \<open>CONNECTING\<close> when it will retry by itself; such an event has no data.
\<close>

datatype sse_event =
    Open nat
  | Unnamed nat string
  | Chunk nat "MessageChunkEvent option"
  | ChartReady nat "ChartReadyEvent option"
  | Complete nat "MessageCompleteEvent option"
  | ServerError nat "ErrorEvent option"
  | Ping nat
  | ConnectionError nat bool
  | Timeout nat
  | CallConnect string string
  | CallDisconnect
  | CallResetContent

text \<open>
  An EventSource dispatches events only while it exists and is not closed.
\<close>

definition live :: "sse \<Rightarrow> nat \<Rightarrow> bool" where
  "live s e = (e < length (sources s) \<and> readyState s e \<noteq> CLOSED)"

fun step :: "UseSSEOptions \<Rightarrow> sse \<Rightarrow> sse_event \<Rightarrow> sse" where
  "step opts s (Open e) =
     (if live s e then on_open e (s\<lparr>readyState := (readyState s)(e := OPEN)\<rparr>) else s)"
| "step opts s (Unnamed e txt) = s"
| "step opts s (Chunk e data) = (if live s e then on_message_chunk e data s else s)"
| "step opts s (ChartReady e data) = (if live s e then on_chart_ready e data s else s)"
| "step opts s (Complete e data) = (if live s e then on_message_complete e data s else s)"
| "step opts s (ServerError e data) =
     (if live s e then onerror opts e (on_error_event e data s) else s)"
| "step opts s (Ping e) = s"
| "step opts s (ConnectionError e fatal) =
     (if live s e then
        onerror opts e
          (on_error_event e None
             (s\<lparr>readyState := (readyState s)(e := (if fatal then CLOSED else CONNECTING))\<rparr>))
      else s)"
| "step opts s (Timeout t) =
     (case filter (\<lambda>x. fst x = t) (timers s) of
        [] \<Rightarrow> s
      | (_, sessionId, query) # _ \<Rightarrow> connect sessionId query (clearTimeout t s))"
| "step opts s (CallConnect sessionId query) = connect sessionId query s"
| "step opts s CallDisconnect = disconnect s"
| "step opts s CallResetContent = resetContent s"

definition run :: "UseSSEOptions \<Rightarrow> sse_event list \<Rightarrow> sse" where
  "run opts evs = foldl (step opts) initial evs"

subsection \<open>What the component observes of one stream\<close>

text \<open>
  The two callbacks that end a turn for the component, the EventSource a recorded callback
  came from, and the callbacks one EventSource has caused, in order.
\<close>

definition is_terminal :: "callback \<Rightarrow> bool" where
  "is_terminal c = (case c of OnMessageComplete _ _ \<Rightarrow> True | OnError _ _ \<Rightarrow> True | _ \<Rightarrow> False)"

definition source_of :: "callback \<Rightarrow> nat" where
  "source_of c = (case c of OnMessageChunk e _ \<Rightarrow> e | OnChartReady e _ \<Rightarrow> e
                  | OnMessageComplete e _ \<Rightarrow> e | OnError e _ \<Rightarrow> e | OnConnectionError e \<Rightarrow> e)"

definition observed :: "sse \<Rightarrow> nat \<Rightarrow> callback list" where
  "observed s e = filter (\<lambda>c. source_of c = e) (called s)"

text \<open>A terminal callback, if there is one, is the last thing observed.\<close>

definition terminal_last :: "callback list \<Rightarrow> bool" where
  "terminal_last obs = (\<forall>c \<in> set (butlast obs). \<not> is_terminal c)"

text \<open>The EventSource an event belongs to; timeouts and calls of the hook's functions have none.\<close>

definition event_source :: "sse_event \<Rightarrow> nat option" where
  "event_source ev =
     (case ev of
        Open e \<Rightarrow> Some e | Unnamed e _ \<Rightarrow> Some e | Chunk e _ \<Rightarrow> Some e
      | ChartReady e _ \<Rightarrow> Some e | Complete e _ \<Rightarrow> Some e | ServerError e _ \<Rightarrow> Some e
      | Ping e \<Rightarrow> Some e | ConnectionError e _ \<Rightarrow> Some e
      | Timeout _ \<Rightarrow> None | CallConnect _ _ \<Rightarrow> None | CallDisconnect \<Rightarrow> None
      | CallResetContent \<Rightarrow> None)"

text \<open>The claim "exactly one terminal event", read on a list of callbacks the hook made.\<close>

definition exactly_one_terminal :: "callback list \<Rightarrow> bool" where
  "exactly_one_terminal obs = (length (filter is_terminal obs) = 1)"

text \<open>
  What holds in every state the hook reaches: only the EventSource in \<open>eventSourceRef\<close> can
  be open, recorded callbacks come from EventSources that exist, an EventSource that caused a
  terminal callback is closed, and a terminal callback is the last one of its EventSource.
\<close>

definition hook_inv :: "sse \<Rightarrow> bool" where
  "hook_inv s =
     ((\<forall>e. readyState s e \<noteq> CLOSED \<longrightarrow> e < length (sources s) \<and> eventSourceRef s = Some e) \<and>
      (\<forall>c \<in> set (called s). source_of c < length (sources s)) \<and>
      (\<forall>c \<in> set (called s). is_terminal c \<longrightarrow> readyState s (source_of c) = CLOSED) \<and>
      (\<forall>e. terminal_last (observed s e)))"

subsection \<open>The state after the stream has ended\<close>

text \<open>
  What \<open>disconnect\<close> leaves in the hook's own state, and the quiescent state proper, in
  which no reconnect timeout is pending either.
\<close>

definition refs_cleared :: "sse \<Rightarrow> bool" where
  "refs_cleared s =
     (\<not> isConnected s \<and> \<not> isConnecting s \<and> eventSourceRef s = None \<and>
      reconnectTimeoutRef s = None \<and> reconnectAttemptsRef s = 0)"

definition quiescent :: "sse \<Rightarrow> bool" where
  "quiescent s = (refs_cleared s \<and> timers s = [])"

text \<open>
  Timeouts in every state the hook reaches: each counted reconnect attempt has set one that is
  still pending, and ids are handed out once.
\<close>

definition timer_inv :: "sse \<Rightarrow> bool" where
  "timer_inv s =
     (reconnectAttemptsRef s \<le> length (timers s) \<and> distinct (map fst (timers s)) \<and>
      (\<forall>x \<in> set (timers s). fst x < next_timer s))"

subsection \<open>One turn of the hook\<close>

text \<open>
  For the component a turn starts when it calls \<open>connect\<close> (in \<open>handleSendMessage\<close>) and lasts
  until it calls \<open>connect\<close> again. A reconnect made by the hook's own timeout belongs to the
  turn it retries.
\<close>

definition is_connect_call :: "sse_event \<Rightarrow> bool" where
  "is_connect_call ev = (case ev of CallConnect _ _ \<Rightarrow> True | _ \<Rightarrow> False)"

text \<open>The callbacks made between an earlier state \<open>s0\<close> and a later state \<open>s\<close> of one run.\<close>

definition observed_since :: "sse \<Rightarrow> sse \<Rightarrow> callback list" where
  "observed_since s0 s = drop (length (called s0)) (called s)"

text \<open>
  Nothing can call the component any more: every EventSource created so far is closed and no
  reconnect timeout is pending.
\<close>

definition idle :: "sse \<Rightarrow> bool" where
  "idle s = (timers s = [] \<and> list_all (\<lambda>e. readyState s e = CLOSED) [0..<length (sources s)])"

section \<open>ChatContainer with its hook\<close>

text \<open>
  The component together with the hook it uses and the requests it has sent through the API
  client, oldest first: \<open>MessageAPI.list(sessionId)\<close> reads the history of a session,
  \<open>MessageAPI.create(sessionId, {content})\<close> stores a user message.
\<close>

datatype request = ListMessages string | CreateMessage string string

record chat =
  container :: ChatContainer
  hook :: sse
  requests :: "request list"

text \<open>
  \<open>loadMessages\<close> up to its \<open>await\<close>. For a temporary session
  (\<open>sessionId.startsWith('temp-session-')\<close>) it shows a notice and sends nothing;
  \<open>offline_notice\<close> stands for the notice, which the source gives in Chinese. Otherwise
  the request goes out. The response arrives later: \<open>messages_loaded\<close> is the \<open>try\<close> branch
  followed by \<open>finally\<close>, \<open>messages_failed\<close> the \<open>catch\<close> branch followed by \<open>finally\<close>, with
  the text that the \<open>catch\<close> branch stores.
\<close>

definition temp_session :: "string \<Rightarrow> bool" where
  "temp_session sessionId = (take 13 sessionId = ''temp-session-'')"

definition offline_notice :: string where
  "offline_notice = ''offline mode: cannot connect to the server''"

definition loadMessages :: "string \<Rightarrow> chat \<Rightarrow> chat" where
  "loadMessages sessionId c =
     (if temp_session sessionId then
        c\<lparr>container := (container c)\<lparr>isLoading := False, loadError := Some offline_notice\<rparr>\<rparr>
      else
        c\<lparr>container := (container c)\<lparr>isLoading := True, loadError := None\<rparr>,
          requests := requests c @ [ListMessages sessionId]\<rparr>)"

definition messages_loaded :: "Message list \<Rightarrow> chat \<Rightarrow> chat" where
  "messages_loaded ms c = c\<lparr>container := (container c)\<lparr>messages := ms, isLoading := False\<rparr>\<rparr>"

definition messages_failed :: "string \<Rightarrow> chat \<Rightarrow> chat" where
  "messages_failed msg c =
     c\<lparr>container := (container c)\<lparr>loadError := Some msg, isLoading := False\<rparr>\<rparr>"

text \<open>
  The effect \<open>useEffect(() => { loadMessages(); }, [loadMessages])\<close>: it runs when the
  component is mounted and again when \<open>sessionId\<close> changes.
\<close>

definition mount :: "string \<Rightarrow> chat \<Rightarrow> chat" where
  "mount sessionId c = loadMessages sessionId c"

text \<open>
  The callbacks the component passes to \<open>useSSE\<close>. \<open>onMessageChunk\<close> has an empty body and
  no \<open>onConnectionError\<close> is passed. Of the hook the callbacks change only
  \<open>accumulatedContent\<close> (through \<open>resetContent\<close>), which no handler of the hook writes after
  it has made its callback; so they may run once the handler is through.
\<close>

definition chat_onChartReady :: "string \<Rightarrow> ChartReadyEvent \<Rightarrow> chat \<Rightarrow> chat" where
  "chat_onChartReady now data c = c\<lparr>container := onChartReady now data (container c)\<rparr>"

definition chat_onMessageComplete :: "string \<Rightarrow> chat \<Rightarrow> chat" where
  "chat_onMessageComplete sessionId c =
     loadMessages sessionId
       (c\<lparr>container := (container c)\<lparr>streamingMessage := None, isSending := False\<rparr>,
          hook := resetContent (hook c)\<rparr>)"

definition chat_onError :: "chat \<Rightarrow> chat" where
  "chat_onError c =
     c\<lparr>container := (container c)\<lparr>streamingMessage := None, isSending := False\<rparr>,
       hook := resetContent (hook c)\<rparr>"

definition deliver :: "string \<Rightarrow> string \<Rightarrow> chat \<Rightarrow> callback \<Rightarrow> chat" where
  "deliver sessionId now c cb =
     (case cb of
        OnMessageChunk _ _ \<Rightarrow> c
      | OnChartReady _ data \<Rightarrow> chat_onChartReady now data c
      | OnMessageComplete _ _ \<Rightarrow> chat_onMessageComplete sessionId c
      | OnError _ _ \<Rightarrow> chat_onError c
      | OnConnectionError _ \<Rightarrow> c)"

text \<open>
  The effect that copies \<open>accumulatedContent\<close> into the streaming message; it depends on
  \<open>accumulatedContent\<close> and \<open>isSending\<close>. \<open>prev?.charts || []\<close> is the empty list only when
  there is no previous streaming message.
\<close>

definition sync_streaming :: "chat \<Rightarrow> chat" where
  "sync_streaming c =
     (if isSending (container c) then
        c\<lparr>container := (container c)
             \<lparr>streamingMessage :=
                Some \<lparr>sm_content = accumulatedContent (hook c),
                      sm_charts = (case streamingMessage (container c) of
                                     None \<Rightarrow> [] | Some prev \<Rightarrow> sm_charts prev)\<rparr>\<rparr>\<rparr>
      else c)"

text \<open>
  One event of the hook as the component lives through it: the hook handles the event, the
  callbacks it has made on the way are run in order, and the effect above runs if one of its
  dependencies has changed. \<open>handleSendMessage\<close> is not a function of this model: towards the
  hook it is the calls \<open>resetContent\<close> and \<open>connect\<close> (the events \<open>CallResetContent\<close> and
  \<open>CallConnect\<close>), and its two requests are entries of \<open>requests\<close>.
\<close>

definition chat_sse :: "UseSSEOptions \<Rightarrow> string \<Rightarrow> string \<Rightarrow> sse_event \<Rightarrow> chat \<Rightarrow> chat" where
  "chat_sse opts sessionId now ev c =
     (let h = step opts (hook c) ev;
          c1 = foldl (deliver sessionId now) (c\<lparr>hook := h\<rparr>)
                 (drop (length (called (hook c))) (called h))
      in if accumulatedContent (hook c1) \<noteq> accumulatedContent (hook c) \<or>
            isSending (container c1) \<noteq> isSending (container c)
         then sync_streaming c1 else c1)"

text \<open>
  The claim "a reconnecting client re-reads history rather than re-attaching to the live
  stream", read on the component before and after it has come back: no EventSource has been
  created in between and a history request has been sent.
\<close>

definition history_reads :: "request list \<Rightarrow> nat" where
  "history_reads rs = length (filter (\<lambda>r. case r of ListMessages _ \<Rightarrow> True | _ \<Rightarrow> False) rs)"

definition reconnects_by_history :: "chat \<Rightarrow> chat \<Rightarrow> bool" where
  "reconnects_by_history before after =
     (length (sources (hook after)) = length (sources (hook before)) \<and>
      history_reads (requests before) < history_reads (requests after))"

text \<open>
  The component as \<open>useState\<close> and \<open>useSSE\<close> initialise it, and the component of session
  \<open>s1\<close> after it was mounted, the message \<open>q\<close> was sent and read back, and the first
  chunk of the answer has arrived.
\<close>

definition initial_chat :: chat where
  "initial_chat =
     \<lparr>container = \<lparr>messages = [], isLoading = True, isSending = False, loadError = None,
                   streamingMessage = None\<rparr>,
      hook = initial, requests = []\<rparr>"

definition streaming_chat :: chat where
  "streaming_chat =
     \<lparr>container =
        \<lparr>messages = [\<lparr>m_id = 6, m_session_id = ''s1'', m_role = user, m_content = ''q'',
                       m_sequence = 1, m_metadata = None, m_created_at = ''t0'',
                       m_charts = []\<rparr>],
         isLoading = False, isSending = True, loadError = None,
         streamingMessage = Some \<lparr>sm_content = ''ab'', sm_charts = []\<rparr>\<rparr>,
      hook = run default_options
               [CallConnect ''s1'' ''q'', Open 0,
                Chunk 0 (Some \<lparr>content = ''ab'', is_final = False\<rparr>)],
      requests = [ListMessages ''s1'', CreateMessage ''s1'' ''q'', ListMessages ''s1'']\<rparr>"

section \<open>The turn engine of the server\<close>

text \<open>
  The backend (\<open>backend/app\<close>) is not among the sources. Everything in this section is
  modelled from the specification of the turn engine: its data model, the chart coordinator,
  the event multiplexer and the persistence writer.
\<close>

text \<open>
  Modelled from the spec: the states of the event multiplexer. The backend's streaming
  endpoint is missing.
\<close>

datatype phase = STREAMING | DRAINING | COMPLETE | FAILED | CANCELLED

text \<open>
  Modelled from the spec: the result of one chart call, a renderable configuration with the
  chart's id, or \<open>omitted\<close> with a reason after a timeout or an upstream failure. The chart
  coordinator is missing.
\<close>

datatype outcome = Ready string json | Omitted string

text \<open>
  Modelled from the spec: the typed records of the outbound event stream: \<open>chunk {content,
  is_final}\<close>, \<open>chart_ready {chart_id, chart_kind, chart_config, ordinal}\<close> and its omitted
  variant \<open>{ordinal, reason}\<close>, \<open>complete {message_id, sequence, total_charts}\<close>,
  \<open>error {error_code, error_message}\<close> and \<open>heartbeat\<close>. The code that emits them is missing.
\<close>

datatype stream_event =
    EvChunk string bool
  | EvChartReady string string json nat
  | EvChartOmitted nat string
  | EvComplete nat nat nat
  | EvError string string
  | EvHeartbeat

text \<open>
  Modelled from the spec: what reaches the multiplexer of one turn: a content delta (with its
  final flag), a detected chart intent (its chart kind), a settled chart call (its ordinal and
  outcome), the generation adapter's end of stream or its error, the client's disconnection,
  the heartbeat interval and the watchdog of the maximum turn duration.
\<close>

datatype turn_input =
    Delta string bool
  | Intent string
  | Settled nat outcome
  | EndOfStream
  | GenerationError string string
  | ClientDisconnected
  | HeartbeatTick
  | WatchdogExpired

text \<open>
  Modelled from the spec: the persisted data model: a Message with role, content, sequence
  and status, and its ChartArtifacts with kind, intent ordinal and outcome, committed together.
  The persistence writer is missing.
\<close>

datatype message_status = StatusComplete | StatusTruncated

record chart_artifact =
  art_ordinal :: nat
  art_kind :: string
  art_outcome :: outcome

record persisted_message =
  p_role :: MessageRole
  p_content :: string
  p_sequence :: nat
  p_status :: message_status
  p_charts :: "chart_artifact list"

text \<open>
  Modelled from the spec: whether the caller of the chart coordinator admitted an intent: it
  was dispatched under its ordinal, or rejected with a policy error.
\<close>

datatype turn_error = PolicyError

datatype admission = Dispatched nat | Rejected turn_error

text \<open>Modelled from the spec: the hard cap of chart intents per message.\<close>

definition max_charts :: nat where
  "max_charts = 5"

text \<open>
  Modelled from the spec: the state of one turn. \<open>progress\<close> is how far the turn's own work
  has come and \<open>client_gone\<close> whether the client has disconnected before a terminal state;
  \<open>parts\<close> are the content deltas in generation order, \<open>intents\<close> the dispatched chart
  intents (an intent's ordinal is its position), \<open>admissions\<close> the fate of every detected
  intent in detection order, \<open>settled\<close> the chart results in completion order, \<open>out\<close> the
  events written to the client, \<open>committed\<close> what readers of the conversation can see.
\<close>

record turn =
  progress :: phase
  client_gone :: bool
  parts :: "string list"
  intents :: "string list"
  admissions :: "admission list"
  settled :: "(nat \<times> outcome) list"
  out :: "stream_event list"
  committed :: "persisted_message list"

text \<open>
  Modelled from the spec: what the surroundings fix for one turn: the sequence number the
  turn manager reserved, the id the store gives the message, how successive commit attempts
  of the store come out, and the bound on commit attempts.
\<close>

record turn_env =
  env_message_id :: nat
  env_sequence :: nat
  env_commit_results :: "bool list"
  env_max_commit_attempts :: nat

text \<open>
  Modelled from the spec: \<open>beginTurn\<close> of the turn manager, which is missing: a new turn
  starts \<open>STREAMING\<close> over the store as readers see it.
\<close>

definition begin_turn :: "persisted_message list \<Rightarrow> turn" where
  "begin_turn store =
     \<lparr>progress = STREAMING, client_gone = False, parts = [], intents = [], admissions = [],
      settled = [], out = [], committed = store\<rparr>"

text \<open>
  Modelled from the spec: the state of the multiplexer. Disconnection cancels the delivery to
  the client only; the turn's work goes on underneath.
\<close>

definition state :: "turn \<Rightarrow> phase" where
  "state t = (if client_gone t then CANCELLED else progress t)"

text \<open>
  Modelled from the spec: a turn that has not reached a terminal state.
\<close>

definition running :: "turn \<Rightarrow> bool" where
  "running t = (progress t = STREAMING \<or> progress t = DRAINING)"

text \<open>
  Modelled from the spec: writing an event to the single outbound stream; after the client
  has disconnected nothing is emitted any more.
\<close>

definition emit :: "stream_event \<Rightarrow> turn \<Rightarrow> turn" where
  "emit ev t = (if client_gone t then t else t\<lparr>out := out t @ [ev]\<rparr>)"

text \<open>
  Modelled from the spec: the event for a settled chart call, \<open>chart_ready\<close> or its omitted
  variant, each with the fixed ordinal of the intent.
\<close>

definition chart_event :: "nat \<Rightarrow> string \<Rightarrow> outcome \<Rightarrow> stream_event" where
  "chart_event i kind oc =
     (case oc of Ready cid config \<Rightarrow> EvChartReady cid kind config i
               | Omitted reason \<Rightarrow> EvChartOmitted i reason)"

text \<open>
  Modelled from the spec: every dispatched intent has settled.
\<close>

definition all_settled :: "turn \<Rightarrow> bool" where
  "all_settled t = list_all (\<lambda>i. map_of (settled t) i \<noteq> None) [0..<length (intents t)]"

text \<open>
  Modelled from the spec: the ChartArtifact rows of a message, one per settled ordinal, in
  ordinal order.
\<close>

definition artifact_at :: "turn \<Rightarrow> nat \<Rightarrow> chart_artifact option" where
  "artifact_at t i =
     map_option (\<lambda>oc. \<lparr>art_ordinal = i, art_kind = intents t ! i, art_outcome = oc\<rparr>)
       (map_of (settled t) i)"

definition artifacts :: "turn \<Rightarrow> chart_artifact list" where
  "artifacts t = List.map_filter (artifact_at t) [0..<length (intents t)]"

text \<open>
  Modelled from the spec: the persistence writer. A commit appends the message and all of its
  chart artifacts in one step or changes nothing; it is retried a bounded number of times.
\<close>

definition commit_succeeds :: "turn_env \<Rightarrow> bool" where
  "commit_succeeds env = (True \<in> set (take (env_max_commit_attempts env) (env_commit_results env)))"

definition persist :: "turn_env \<Rightarrow> message_status \<Rightarrow> turn \<Rightarrow> turn" where
  "persist env status t =
     (if commit_succeeds env then
        t\<lparr>committed := committed t @
             [\<lparr>p_role = assistant, p_content = concat (parts t), p_sequence = env_sequence env,
               p_status = status, p_charts = artifacts t\<rparr>]\<rparr>
      else t)"

text \<open>
  Modelled from the spec: \<open>DRAINING \<rightarrow> COMPLETE\<close> once every dispatched intent has settled:
  the writer commits, then one \<open>complete\<close> event carries the message id, the sequence and the
  total chart count; a commit that keeps failing makes the turn \<open>FAILED\<close> with one \<open>error\<close>.
\<close>

definition finish :: "turn_env \<Rightarrow> turn \<Rightarrow> turn" where
  "finish env t =
     (if commit_succeeds env then
        emit (EvComplete (env_message_id env) (env_sequence env) (length (intents t)))
          ((persist env StatusComplete t)\<lparr>progress := COMPLETE\<rparr>)
      else emit (EvError ''PersistenceFailure'' ''commit failed'') (t\<lparr>progress := FAILED\<rparr>))"

text \<open>
  Modelled from the spec: the check made whenever the generation has ended or a chart call
  has settled.
\<close>

definition finish_if_drained :: "turn_env \<Rightarrow> turn \<Rightarrow> turn" where
  "finish_if_drained env t = (if progress t = DRAINING \<and> all_settled t then finish env t else t)"

text \<open>
  Modelled from the spec: the transitions of the multiplexer, the cap of five intents
  enforced by the caller of the chart coordinator, and the absorption of chart failures.
\<close>

fun turn_step :: "turn_env \<Rightarrow> turn \<Rightarrow> turn_input \<Rightarrow> turn" where
  "turn_step env t (Delta c final) =
     (if progress t = STREAMING then emit (EvChunk c final) (t\<lparr>parts := parts t @ [c]\<rparr>) else t)"
| "turn_step env t (Intent kind) =
     (if progress t = STREAMING then
        (if length (intents t) < max_charts then
           t\<lparr>intents := intents t @ [kind],
             admissions := admissions t @ [Dispatched (length (intents t))]\<rparr>
         else t\<lparr>admissions := admissions t @ [Rejected PolicyError]\<rparr>)
      else t)"
| "turn_step env t (Settled i oc) =
     (if running t \<and> i < length (intents t) \<and> map_of (settled t) i = None then
        finish_if_drained env
          (emit (chart_event i (intents t ! i) oc) (t\<lparr>settled := settled t @ [(i, oc)]\<rparr>))
      else t)"
| "turn_step env t EndOfStream =
     (if progress t = STREAMING then finish_if_drained env (t\<lparr>progress := DRAINING\<rparr>) else t)"
| "turn_step env t (GenerationError code msg) =
     (if progress t = STREAMING then
        emit (EvError code msg)
          ((if parts t = [] then t else persist env StatusTruncated t)\<lparr>progress := FAILED\<rparr>)
      else t)"
| "turn_step env t ClientDisconnected =
     (if running t then t\<lparr>client_gone := True\<rparr> else t)"
| "turn_step env t HeartbeatTick = (if running t then emit EvHeartbeat t else t)"
| "turn_step env t WatchdogExpired =
     (if running t then
        emit (EvError ''UpstreamTimeout'' ''turn exceeded its maximum duration'')
          (t\<lparr>progress := FAILED\<rparr>)
      else t)"

text \<open>
  Modelled from the spec: a turn fed its inputs in the order they arrive.
\<close>

definition turn_run :: "turn_env \<Rightarrow> turn \<Rightarrow> turn_input list \<Rightarrow> turn" where
  "turn_run env t ins = foldl (turn_step env) t ins"

subsection \<open>Reading the turn engine's output and input\<close>

text \<open>The ordinals of the chart events and the contents of the chunk events of a stream, in order.\<close>

definition event_ordinal :: "stream_event \<Rightarrow> nat option" where
  "event_ordinal ev =
     (case ev of EvChartReady _ _ _ i \<Rightarrow> Some i | EvChartOmitted i _ \<Rightarrow> Some i | _ \<Rightarrow> None)"

definition event_ordinals :: "stream_event list \<Rightarrow> nat list" where
  "event_ordinals evs = List.map_filter event_ordinal evs"

definition chunk_content :: "stream_event \<Rightarrow> string option" where
  "chunk_content ev = (case ev of EvChunk c _ \<Rightarrow> Some c | _ \<Rightarrow> None)"

definition chunk_contents :: "stream_event list \<Rightarrow> string list" where
  "chunk_contents evs = List.map_filter chunk_content evs"

text \<open>The two terminal events of a turn's stream.\<close>

definition is_terminal_event :: "stream_event \<Rightarrow> bool" where
  "is_terminal_event ev = (case ev of EvComplete _ _ _ \<Rightarrow> True | EvError _ _ \<Rightarrow> True | _ \<Rightarrow> False)"

text \<open>
  The content deltas the generation produced, in generation order: those that arrived before
  its end of stream.
\<close>

definition delta_content :: "turn_input \<Rightarrow> string option" where
  "delta_content x = (case x of Delta c _ \<Rightarrow> Some c | _ \<Rightarrow> None)"

definition generated :: "turn_input list \<Rightarrow> string list" where
  "generated ins = List.map_filter delta_content (takeWhile (\<lambda>x. x \<noteq> EndOfStream) ins)"

text \<open>The inputs that fail a turn by themselves; a settled chart call is not among them.\<close>

definition is_failure_input :: "turn_input \<Rightarrow> bool" where
  "is_failure_input x =
     (case x of GenerationError _ _ \<Rightarrow> True | WatchdogExpired \<Rightarrow> True | _ \<Rightarrow> False)"

text \<open>
  What holds of intents, admissions and results in every state of a turn: at most five
  dispatched intents, every result for a dispatched ordinal and none twice, dispatched intents
  numbered in detection order and every rejection a policy error after the fifth dispatch.
\<close>

definition shape_inv :: "turn \<Rightarrow> bool" where
  "shape_inv t =
     (length (intents t) \<le> max_charts \<and> distinct (map fst (settled t)) \<and>
      (\<forall>i \<in> fst ` set (settled t). i < length (intents t)) \<and>
      admissions t = map Dispatched [0..<length (intents t)] @
                     replicate (length (admissions t) - length (intents t)) (Rejected PolicyError) \<and>
      (length (intents t) < length (admissions t) \<longrightarrow> length (intents t) = max_charts))"

text \<open>The message a completed turn commits.\<close>

definition complete_message :: "turn_env \<Rightarrow> turn \<Rightarrow> persisted_message" where
  "complete_message env t =
     \<lparr>p_role = assistant, p_content = concat (parts t), p_sequence = env_sequence env,
      p_status = StatusComplete, p_charts = artifacts t\<rparr>"

text \<open>
  While the client is connected it has been sent one chart event per settled result, in
  completion order, and one chunk per content part, in generation order.
\<close>

definition delivery_inv :: "turn \<Rightarrow> bool" where
  "delivery_inv t =
     (\<not> client_gone t \<longrightarrow>
        event_ordinals (out t) = map fst (settled t) \<and> chunk_contents (out t) = parts t)"

text \<open>
  A running turn has committed nothing and emitted no terminal event; a completed turn has all
  results settled, has committed its message once, and has emitted its one \<open>complete\<close> event
  last.
\<close>

definition outcome_inv :: "turn_env \<Rightarrow> persisted_message list \<Rightarrow> turn \<Rightarrow> bool" where
  "outcome_inv env store t =
     ((running t \<longrightarrow> committed t = store \<and> filter is_terminal_event (out t) = []) \<and>
      (progress t = COMPLETE \<longrightarrow>
         all_settled t \<and> commit_succeeds env \<and>
         committed t = store @ [complete_message env t] \<and>
         (\<not> client_gone t \<longrightarrow>
            filter is_terminal_event (out t) =
              [EvComplete (env_message_id env) (env_sequence env) (length (intents t))] \<and>
            last (out t) = EvComplete (env_message_id env) (env_sequence env) (length (intents t)))) \<and>
      progress t \<noteq> CANCELLED)"

text \<open>The content parts of a turn are the deltas generated before the end of the stream.\<close>

definition generated_inv :: "turn_input list \<Rightarrow> turn \<Rightarrow> bool" where
  "generated_inv ins t =
     ((progress t = STREAMING \<longrightarrow> EndOfStream \<notin> set ins \<and> parts t = generated ins) \<and>
      (progress t = DRAINING \<or> progress t = COMPLETE \<longrightarrow>
         EndOfStream \<in> set ins \<and> parts t = generated ins))"

text \<open>
  The chart intents detected while the generation was running, in detection order.
\<close>

definition ends_generation :: "turn_input \<Rightarrow> bool" where
  "ends_generation x = (x = EndOfStream \<or> is_failure_input x)"

definition intent_kind :: "turn_input \<Rightarrow> string option" where
  "intent_kind x = (case x of Intent k \<Rightarrow> Some k | _ \<Rightarrow> None)"

definition detected :: "turn_input list \<Rightarrow> string list" where
  "detected ins = List.map_filter intent_kind (takeWhile (\<lambda>x. \<not> ends_generation x) ins)"

text \<open>Dispatched are the first five detected intents; every detected intent has an admission.\<close>

definition detected_inv :: "turn_input list \<Rightarrow> turn \<Rightarrow> bool" where
  "detected_inv ins t =
     (intents t = take max_charts (detected ins) \<and>
      length (admissions t) = length (detected ins) \<and>
      (progress t = STREAMING \<longleftrightarrow> (\<forall>x \<in> set ins. \<not> ends_generation x)))"

text \<open>
  The chunk events of a turn's stream as they reach the useSSE hook on EventSource \<open>e\<close>:
  events named \<open>message_chunk\<close> whose data parses to \<open>{content, is_final}\<close>.
\<close>

definition wire_chunk :: "nat \<Rightarrow> stream_event \<Rightarrow> sse_event option" where
  "wire_chunk e ev =
     (case ev of EvChunk c final \<Rightarrow> Some (Chunk e (Some \<lparr>content = c, is_final = final\<rparr>))
               | _ \<Rightarrow> None)"

definition wire_chunks :: "nat \<Rightarrow> stream_event list \<Rightarrow> sse_event list" where
  "wire_chunks e evs = List.map_filter (wire_chunk e) evs"

text \<open>Two turn states that differ at most in what the client was sent.\<close>

definition same_work :: "turn \<Rightarrow> turn \<Rightarrow> bool" where
  "same_work t1 t2 =
     (progress t1 = progress t2 \<and> parts t1 = parts t2 \<and> intents t1 = intents t2 \<and>
      admissions t1 = admissions t2 \<and> settled t1 = settled t2 \<and> committed t1 = committed t2)"

section \<open>Properties of ChatContainer\<close>

lemma onChartReady_None:
  "streamingMessage st = None \<Longrightarrow> onChartReady now data st = st"
  by (simp add: onChartReady_def)

lemma onChartReady_all_None:
  "streamingMessage st = None \<Longrightarrow> onChartReady_all evs st = st"
  by (induction evs arbitrary: st) (auto simp: onChartReady_None)

lemma onChartReady_all_Some:
  "streamingMessage st = Some m \<Longrightarrow>
   onChartReady_all evs st =
     st\<lparr>streamingMessage :=
          Some (m\<lparr>sm_charts := sm_charts m @ map (\<lambda>(now, data). chart_of_event now data) evs\<rparr>)\<rparr>"
proof (induction evs arbitrary: st m)
  case Nil
  then show ?case by simp
next
  case (Cons e evs)
  obtain now data where e: "e = (now, data)" by (cases e)
  let ?m' = "m\<lparr>sm_charts := sm_charts m @ [chart_of_event now data]\<rparr>"
  have "streamingMessage (onChartReady now data st) = Some ?m'"
    using Cons.prems by (simp add: onChartReady_def)
  from Cons.IH[OF this] show ?case
    using Cons.prems by (simp add: e onChartReady_def)
qed

text \<open>
  Claim C10. A \<open>chart_ready\<close> event that arrives while \<open>streamingMessage\<close> is null leaves the
  whole ChatContainer state as it was, so the chart is dropped. While a streaming message is
  active, every run of \<open>chart_ready\<close> events extends its chart list by the events' charts in
  the order of arrival: the position of a chart never depends on its \<open>sequence\<close> field.
\<close>

theorem chart_ready_dropped_or_appended_in_arrival_order:
  "(streamingMessage st = None \<longrightarrow> onChartReady_all evs st = st) \<and>
   (streamingMessage st = Some m \<longrightarrow>
      onChartReady_all evs st =
        st\<lparr>streamingMessage :=
             Some (m\<lparr>sm_charts :=
                       sm_charts m @ map (\<lambda>(now, data). chart_of_event now data) evs\<rparr>)\<rparr>)"
  using onChartReady_all_None onChartReady_all_Some by blast

theorem chart_ready_dropped_or_appended_in_arrival_order_witness:
  "map c_sequence
     (sm_charts (the (streamingMessage
        (onChartReady_all
           [(''t1'', \<lparr>chart_id = ''b'', chart_type = ''bar'', chart_config = ''{}'', sequence = 1\<rparr>),
            (''t2'', \<lparr>chart_id = ''a'', chart_type = ''line'', chart_config = ''{}'', sequence = 0\<rparr>)]
           \<lparr>messages = [], isLoading = False, isSending = True, loadError = None,
            streamingMessage = Some \<lparr>sm_content = ''x'', sm_charts = []\<rparr>\<rparr>)))) = [1, 0] \<and>
   onChartReady_all
     [(''t1'', \<lparr>chart_id = ''b'', chart_type = ''bar'', chart_config = ''{}'', sequence = 1\<rparr>)]
     \<lparr>messages = [], isLoading = False, isSending = False, loadError = None,
      streamingMessage = None\<rparr> =
     \<lparr>messages = [], isLoading = False, isSending = False, loadError = None,
      streamingMessage = None\<rparr>"
  using chart_ready_dropped_or_appended_in_arrival_order
          [of "\<lparr>messages = [], isLoading = False, isSending = True, loadError = None,
                streamingMessage = Some \<lparr>sm_content = ''x'', sm_charts = []\<rparr>\<rparr>"
              "[(''t1'', \<lparr>chart_id = ''b'', chart_type = ''bar'', chart_config = ''{}'', sequence = 1\<rparr>),
                (''t2'', \<lparr>chart_id = ''a'', chart_type = ''line'', chart_config = ''{}'', sequence = 0\<rparr>)]"
              "\<lparr>sm_content = ''x'', sm_charts = []\<rparr>"]
        chart_ready_dropped_or_appended_in_arrival_order
          [of "\<lparr>messages = [], isLoading = False, isSending = False, loadError = None,
                streamingMessage = None\<rparr>"
              "[(''t1'', \<lparr>chart_id = ''b'', chart_type = ''bar'', chart_config = ''{}'', sequence = 1\<rparr>)]"]
  by (simp add: chart_of_event_def)

section \<open>Properties of the store\<close>

lemma sql_max_snoc:
  "sql_max (xs @ [x]) = Some (case sql_max xs of None \<Rightarrow> x | Some m \<Rightarrow> max m x)"
  by (induction xs) (auto split: option.splits)

lemma sql_max_upto:
  "sql_max (map int [0..<n]) = (if n = 0 then None else Some (int n - 1))"
proof (induction n)
  case 0
  show ?case by simp
next
  case (Suc n)
  show ?case by (simp add: sql_max_snoc Suc.IH)
qed

lemma next_sequence_inv:
  assumes "seq_inv d"
  shows "next_sequence d sid = int (length (session_messages d sid))"
proof -
  have "map msg_sequence (session_messages d sid) =
        map int [0..<length (session_messages d sid)]"
    using assms by (simp add: seq_inv_def)
  then show ?thesis
    by (simp add: next_sequence_def coalesce_def sql_max_upto)
qed

lemma insert_message_row:
  assumes "insert_message d now sid role body metadata = Inr (row, d')"
  shows "messages_tbl d' = messages_tbl d @ [row] \<and> msg_session_id row = sid \<and>
         msg_sequence row = next_sequence d sid \<and> msg_content row = body \<and>
         charts_tbl d' = charts_tbl d"
  using assms
  by (auto simp: insert_message_def increment_message_sequence_def Let_def
           split: if_splits sum.splits)

lemma insert_message_inv:
  assumes "seq_inv d" and "insert_message d now sid role body metadata = Inr (row, d')"
  shows "seq_inv d'"
proof -
  note r = insert_message_row[OF assms(2)]
  have sq: "msg_sequence row = int (length (session_messages d sid))"
    using r next_sequence_inv[OF assms(1)] by simp
  show ?thesis
    unfolding seq_inv_def
  proof
    fix t
    have old: "map msg_sequence (session_messages d t) = map int [0..<length (session_messages d t)]"
      using assms(1) by (simp add: seq_inv_def)
    show "map msg_sequence (session_messages d' t) = map int [0..<length (session_messages d' t)]"
    proof (cases "t = sid")
      case True
      then show ?thesis using r sq old by (simp add: session_messages_def)
    next
      case False
      then show ?thesis using r old by (simp add: session_messages_def)
    qed
  qed
qed

lemma session_messages_rollback [simp]:
  "session_messages (rollback d d') sid = session_messages d sid"
  by (simp add: rollback_def session_messages_def)

lemma seq_inv_rollback: "seq_inv d \<Longrightarrow> seq_inv (rollback d d')"
  by (simp add: seq_inv_def)

lemma seq_inv_delete: "seq_inv d \<Longrightarrow> seq_inv (delete_session d sid)"
  unfolding seq_inv_def
proof
  fix t
  assume a: "\<forall>sid. map msg_sequence (session_messages d sid) = map int [0..<length (session_messages d sid)]"
  have "session_messages (delete_session d sid) t = (if t = sid then [] else session_messages d t)"
    by (auto simp: delete_session_def session_messages_def intro: filter_cong)
  then show "map msg_sequence (session_messages (delete_session d sid) t) =
        map int [0..<length (session_messages (delete_session d sid) t)]"
    using a by simp
qed

lemma seq_inv_apply_op: "seq_inv d \<Longrightarrow> seq_inv (apply_op d x)"
proof (cases x)
  case (CreateSession now sid title)
  assume "seq_inv d"
  then show ?thesis using CreateSession
    by (auto simp: insert_session_def seq_inv_def session_messages_def split: sum.splits if_splits)
next
  case (InsertMessage now sid role body metadata)
  assume "seq_inv d"
  then show ?thesis using InsertMessage
    by (auto split: sum.splits intro: insert_message_inv seq_inv_rollback)
next
  case (InsertMessageRolledBack now sid role body metadata)
  assume "seq_inv d"
  then show ?thesis using InsertMessageRolledBack
    by (auto split: sum.splits intro: seq_inv_rollback)
next
  case (InsertChart now uuid mid ctype config sq)
  assume "seq_inv d"
  then show ?thesis using InsertChart
    by (auto simp: insert_chart_def seq_inv_def session_messages_def split: sum.splits if_splits)
next
  case (DeleteSession sid)
  assume "seq_inv d"
  then show ?thesis using DeleteSession by (simp add: seq_inv_delete)
qed

lemma seq_inv_foldl: "seq_inv d \<Longrightarrow> seq_inv (foldl apply_op d ops)"
  by (induction ops arbitrary: d) (auto simp: seq_inv_apply_op)

lemma seq_inv_run_ops: "seq_inv (run_ops ops)"
  unfolding run_ops_def
  by (rule seq_inv_foldl) (simp add: seq_inv_def empty_db_def session_messages_def)

text \<open>
  Claim C1. Whatever clients do to the store, one statement after the other (sessions created
  and deleted, messages inserted, inserts that raise, inserts undone by a rollback when a turn
  fails, the same insert tried again, charts inserted), the sequence numbers of every session's
  messages, read in insertion order, are exactly 0, 1, 2, ...: each is its predecessor plus
  one, none is skipped and none is given twice.
\<close>

theorem message_sequences_gapless:
  "map msg_sequence (session_messages (run_ops ops) sid) =
     map int [0..<length (session_messages (run_ops ops) sid)]"
  using seq_inv_run_ops[of ops] by (simp add: seq_inv_def)

theorem message_sequences_gapless_witness:
  "map msg_sequence
     (session_messages
        (run_ops [CreateSession 1 ''s1'' None, CreateSession 2 ''s2'' None,
                  InsertMessage 3 ''s1'' user ''q1'' None,
                  InsertMessageRolledBack 4 ''s1'' assistant ''partial'' None,
                  InsertMessage 5 ''s2'' user ''other'' None,
                  InsertMessage 6 ''nosuch'' user ''lost'' None,
                  InsertMessage 7 ''s1'' assistant ''a1'' None,
                  InsertMessage 8 ''s1'' user ''q2'' None]) ''s1'') = [0, 1, 2]"
  using message_sequences_gapless
          [of "[CreateSession 1 ''s1'' None, CreateSession 2 ''s2'' None,
                InsertMessage 3 ''s1'' user ''q1'' None,
                InsertMessageRolledBack 4 ''s1'' assistant ''partial'' None,
                InsertMessage 5 ''s2'' user ''other'' None,
                InsertMessage 6 ''nosuch'' user ''lost'' None,
                InsertMessage 7 ''s1'' assistant ''a1'' None,
                InsertMessage 8 ''s1'' user ''q2'' None]" "''s1''"]
  by (simp add: run_ops_def empty_db_def insert_session_def insert_message_def
        increment_message_sequence_def next_sequence_def session_messages_def coalesce_def
        rollback_def bump_session_def int4_max_def Let_def)

subsection \<open>Reading history\<close>

lemma key_sequence_group [simp]: "key_sequence (group_columns r) = h_sequence r"
  by (simp add: key_sequence_def group_columns_def)

lemma key_sequence_message [simp]: "key_sequence (message_columns m) = msg_sequence m"
  by (simp add: key_sequence_def message_columns_def)

lemma json_agg_charts_ok: "charts_agg_ok d mid (json_agg_charts d mid)"
proof -
  have "cj_sequence \<circ> chart_json_of = ch_sequence"
    by (rule ext) (simp add: chart_json_of_def)
  then show ?thesis
    by (simp add: charts_agg_ok_def json_agg_charts_def Let_def)
qed

lemma select_history_admissible: "is_history_result d sid (select_history d sid)"
proof -
  have g: "group_columns \<circ> history_row_of d = message_columns"
    by (rule ext) (simp add: group_columns_def history_row_of_def message_columns_def)
  have h: "h_sequence \<circ> history_row_of d = msg_sequence"
    by (rule ext) (simp add: history_row_of_def)
  have i: "h_id (history_row_of d m) = msg_id m" "h_charts (history_row_of d m) = json_agg_charts d (msg_id m)" for m
    by (simp_all add: history_row_of_def)
  show ?thesis
    unfolding is_history_result_def select_history_def
    by (auto simp: g h i json_agg_charts_ok)
qed

lemma charts_agg_unique:
  assumes "charts_agg_ok d mid a" and "charts_agg_ok d mid b"
  shows "map_option (map cj_sequence) a = map_option (map cj_sequence) b"
proof (cases a)
  case None
  then show ?thesis using assms by (cases b) (auto simp: charts_agg_ok_def)
next
  case (Some cs)
  then obtain cs' where b: "b = Some cs'"
    using assms by (cases b) (auto simp: charts_agg_ok_def)
  have "mset cs = mset cs'"
    using assms Some b by (simp add: charts_agg_ok_def)
  then have "image_mset cj_sequence (mset cs) = image_mset cj_sequence (mset cs')"
    by (rule arg_cong)
  then have m: "mset (map cj_sequence cs) = mset (map cj_sequence cs')"
    by simp
  have s: "sorted (map cj_sequence cs)" "sorted (map cj_sequence cs')"
    using assms Some b by (simp_all add: charts_agg_ok_def)
  have "sort (map cj_sequence cs') = map cj_sequence cs"
    using m s(1) by (rule properties_for_sort)
  moreover have "sort (map cj_sequence cs') = map cj_sequence cs'"
    using s(2) by (simp add: sorted_sort_id)
  ultimately show ?thesis using Some b by simp
qed

lemma history_columns_unique:
  assumes inv: "seq_inv d"
    and r1: "is_history_result d sid r1" and r2: "is_history_result d sid r2"
  shows "map group_columns r1 = map group_columns r2"
proof -
  let ?ms = "session_messages d sid"
  let ?xs = "map group_columns r1" and ?ys = "map group_columns r2"
  have mx: "mset ?xs = mset (map message_columns ?ms)"
    and my: "mset ?ys = mset (map message_columns ?ms)"
    using r1 r2 by (simp_all add: is_history_result_def)
  have dm: "distinct (map msg_sequence ?ms)"
  proof -
    have "map msg_sequence ?ms = map int [0..<length ?ms]"
      using inv by (simp add: seq_inv_def)
    then show ?thesis by (simp add: distinct_map)
  qed
  have km: "mset (map key_sequence (map message_columns ?ms)) = mset (map msg_sequence ?ms)"
    by (simp add: comp_def)
  have kx: "mset (map key_sequence ?xs) = mset (map msg_sequence ?ms)"
    using arg_cong[OF mx, of "image_mset key_sequence"] km by (simp add: multiset.map_comp)
  have ky: "mset (map key_sequence ?ys) = mset (map msg_sequence ?ms)"
    using arg_cong[OF my, of "image_mset key_sequence"] km by (simp add: multiset.map_comp)
  have dx: "distinct (map key_sequence ?xs)"
    using mset_eq_imp_distinct_iff[OF kx] dm by simp
  have dy: "distinct (map key_sequence ?ys)"
    using mset_eq_imp_distinct_iff[OF ky] dm by simp
  have sx: "sorted (map key_sequence ?xs)" and sy: "sorted (map key_sequence ?ys)"
    using r1 r2 by (simp_all add: is_history_result_def comp_def)
  have st: "set ?xs = set ?ys"
    by (rule mset_eq_setD) (simp only: mx my)
  have "inj_on key_sequence (set ?xs)"
    using iffD1[OF distinct_map dx] by (rule conjunct2)
  moreover have "set ?xs \<union> set ?ys = set ?xs"
    by (simp only: st Un_absorb)
  ultimately have inj: "inj_on key_sequence (set ?xs \<union> set ?ys)"
    by (simp only:)
  show ?thesis
    by (rule map_sorted_distinct_set_unique[OF inj sx dx sy dy st])
qed

lemma history_ordinals_unique:
  assumes cols: "map group_columns r1 = map group_columns r2"
    and r1: "is_history_result d sid r1" and r2: "is_history_result d sid r2"
  shows "map chart_ordinals r1 = map chart_ordinals r2"
proof -
  have len: "length r1 = length r2"
    using arg_cong[OF cols, of length] by simp
  have "chart_ordinals (r1 ! i) = chart_ordinals (r2 ! i)" if i: "i < length r1" for i
  proof -
    have "group_columns (r1 ! i) = group_columns (r2 ! i)"
      using arg_cong[OF cols, of "\<lambda>l. l ! i"] i len by simp
    then have id: "h_id (r1 ! i) = h_id (r2 ! i)"
      by (simp add: group_columns_def)
    have "charts_agg_ok d (h_id (r1 ! i)) (h_charts (r1 ! i))"
      using r1 i by (simp add: is_history_result_def)
    moreover have "charts_agg_ok d (h_id (r1 ! i)) (h_charts (r2 ! i))"
      using r2 i len id by (simp add: is_history_result_def)
    ultimately show ?thesis
      unfolding chart_ordinals_def by (rule charts_agg_unique)
  qed
  then show ?thesis
    using len by (simp add: list_eq_iff_nth_eq)
qed

lemma example_store:
  "run_ops [CreateSession 1 ''s1'' None,
            InsertMessage 2 ''s1'' user ''q'' None,
            InsertMessage 3 ''s1'' assistant ''a'' None,
            InsertChart 4 ''u1'' 2 ''line'' ''{1}'' 0,
            InsertChart 5 ''u2'' 2 ''bar'' ''{2}'' 0] =
   \<lparr>sessions_tbl =
      [\<lparr>s_id = ''s1'', s_user_id = 1, s_title = None, s_created_at = 1, s_updated_at = 3,
        s_deleted_at = None, s_message_count = 2\<rparr>],
    messages_tbl =
      [\<lparr>msg_id = 1, msg_session_id = ''s1'', msg_role = user, msg_content = ''q'',
        msg_created_at = 2, msg_sequence = 0, msg_metadata = None\<rparr>,
       \<lparr>msg_id = 2, msg_session_id = ''s1'', msg_role = assistant, msg_content = ''a'',
        msg_created_at = 3, msg_sequence = 1, msg_metadata = None\<rparr>],
    charts_tbl =
      [\<lparr>ch_id = ''u1'', ch_message_id = 2, ch_chart_type = ''line'', ch_chart_config = ''{1}'',
        ch_created_at = 4, ch_sequence = 0\<rparr>,
       \<lparr>ch_id = ''u2'', ch_message_id = 2, ch_chart_type = ''bar'', ch_chart_config = ''{2}'',
        ch_created_at = 5, ch_sequence = 0\<rparr>],
    messages_id_seq = 3\<rparr>"
  by (simp add: run_ops_def empty_db_def insert_session_def insert_message_def insert_chart_def
        increment_message_sequence_def next_sequence_def session_messages_def coalesce_def
        rollback_def bump_session_def int4_max_def Let_def)

text \<open>
  Claim C8. In every store that clients can reach, any two answers of the history query for
  the same session agree: the same message contents in the same order, the same sequence
  numbers, and for every message the same chart ordinals. Reading does not write, so this
  holds for any two reads with no write in between.
\<close>

theorem history_reads_agree:
  assumes "is_history_result (run_ops ops) sid r1" and "is_history_result (run_ops ops) sid r2"
  shows "map h_content r1 = map h_content r2 \<and> map h_sequence r1 = map h_sequence r2 \<and>
         map chart_ordinals r1 = map chart_ordinals r2"
proof -
  have cols: "map group_columns r1 = map group_columns r2"
    using seq_inv_run_ops assms by (rule history_columns_unique)
  have c: "map h_content r1 = map h_content r2"
    using arg_cong[OF cols, of "map (\<lambda>k. fst (snd (snd k)))"]
    by (simp add: group_columns_def comp_def)
  have s: "map h_sequence r1 = map h_sequence r2"
    using arg_cong[OF cols, of "map key_sequence"] by (simp add: comp_def)
  show ?thesis
    using c s history_ordinals_unique[OF cols assms] by simp
qed

theorem history_reads_agree_witness:
  "is_history_result
     (run_ops [CreateSession 1 ''s1'' None,
               InsertMessage 2 ''s1'' user ''q'' None,
               InsertMessage 3 ''s1'' assistant ''a'' None,
               InsertChart 4 ''u1'' 2 ''line'' ''{1}'' 0,
               InsertChart 5 ''u2'' 2 ''bar'' ''{2}'' 0]) ''s1''
     [\<lparr>h_id = 1, h_role = user, h_content = ''q'', h_created_at = 2, h_sequence = 0,
       h_charts = None\<rparr>,
      \<lparr>h_id = 2, h_role = assistant, h_content = ''a'', h_created_at = 3, h_sequence = 1,
       h_charts = Some [\<lparr>cj_id = ''u2'', cj_type = ''bar'', cj_config = ''{2}'', cj_sequence = 0\<rparr>,
                        \<lparr>cj_id = ''u1'', cj_type = ''line'', cj_config = ''{1}'', cj_sequence = 0\<rparr>]\<rparr>] \<and>
   map chart_ordinals
     (select_history
        (run_ops [CreateSession 1 ''s1'' None,
                  InsertMessage 2 ''s1'' user ''q'' None,
                  InsertMessage 3 ''s1'' assistant ''a'' None,
                  InsertChart 4 ''u1'' 2 ''line'' ''{1}'' 0,
                  InsertChart 5 ''u2'' 2 ''bar'' ''{2}'' 0]) ''s1'') = [None, Some [0, 0]] \<and>
   map h_content
     (select_history
        (run_ops [CreateSession 1 ''s1'' None,
                  InsertMessage 2 ''s1'' user ''q'' None,
                  InsertMessage 3 ''s1'' assistant ''a'' None,
                  InsertChart 4 ''u1'' 2 ''line'' ''{1}'' 0,
                  InsertChart 5 ''u2'' 2 ''bar'' ''{2}'' 0]) ''s1'') = [''q'', ''a'']"
proof -
  let ?d = "run_ops [CreateSession 1 ''s1'' None,
               InsertMessage 2 ''s1'' user ''q'' None,
               InsertMessage 3 ''s1'' assistant ''a'' None,
               InsertChart 4 ''u1'' 2 ''line'' ''{1}'' 0,
               InsertChart 5 ''u2'' 2 ''bar'' ''{2}'' 0]"
  let ?r = "[\<lparr>h_id = 1, h_role = user, h_content = ''q'', h_created_at = 2, h_sequence = 0,
       h_charts = None\<rparr>,
      \<lparr>h_id = 2, h_role = assistant, h_content = ''a'', h_created_at = 3, h_sequence = 1,
       h_charts = Some [\<lparr>cj_id = ''u2'', cj_type = ''bar'', cj_config = ''{2}'', cj_sequence = 0\<rparr>,
                        \<lparr>cj_id = ''u1'', cj_type = ''line'', cj_config = ''{1}'', cj_sequence = 0\<rparr>]\<rparr>]"
  have a: "is_history_result ?d ''s1'' ?r"
    unfolding example_store
    by (simp add: is_history_result_def charts_agg_ok_def message_charts_def
          session_messages_def group_columns_def message_columns_def chart_json_of_def)
  have b: "is_history_result ?d ''s1'' (select_history ?d ''s1'')"
    by (rule select_history_admissible)
  from history_reads_agree[OF b a] a show ?thesis
    by (simp add: chart_ordinals_def)
qed

section \<open>Properties of the useSSE hook\<close>

lemma disconnect_fields [simp]:
  "called (disconnect s) = called s"
  "sources (disconnect s) = sources s"
  "eventSourceRef (disconnect s) = None"
  "reconnectTimeoutRef (disconnect s) = None"
  "reconnectAttemptsRef (disconnect s) = 0"
  "isConnected (disconnect s) = False"
  "isConnecting (disconnect s) = False"
  by (simp_all add: disconnect_def close_def clearTimeout_def Let_def split: option.splits)

lemma readyState_disconnect:
  "readyState (disconnect s) =
     (case eventSourceRef s of None \<Rightarrow> readyState s | Some e \<Rightarrow> (readyState s)(e := CLOSED))"
  by (simp add: disconnect_def close_def clearTimeout_def Let_def split: option.splits)

lemma observed_snoc:
  "observed (s\<lparr>called := called s @ [c]\<rparr>) e =
     (if source_of c = e then observed s e @ [c] else observed s e)"
  by (simp add: observed_def)

lemma terminal_last_snoc:
  "\<forall>c \<in> set obs. \<not> is_terminal c \<Longrightarrow> terminal_last (obs @ [c])"
  by (simp add: terminal_last_def)

lemma live_no_terminal:
  assumes "hook_inv s" and "readyState s e \<noteq> CLOSED"
  shows "\<forall>c \<in> set (observed s e). \<not> is_terminal c"
  using assms by (auto simp: hook_inv_def observed_def)

lemma hook_inv_initial: "hook_inv initial"
  by (simp add: hook_inv_def initial_def observed_def terminal_last_def)

lemma hook_inv_closing:
  assumes "hook_inv s"
    and "called s' = called s" and "sources s' = sources s"
    and "\<And>e. readyState s' e \<noteq> CLOSED \<Longrightarrow> readyState s e \<noteq> CLOSED \<and> eventSourceRef s' = Some e"
  shows "hook_inv s'"
  using assms unfolding hook_inv_def observed_def
  by (metis (no_types, lifting))

lemma hook_inv_callback:
  assumes inv: "hook_inv s" and lv: "live s e" and src: "source_of c = e"
    and c: "called s' = called s @ [c]" and so: "sources s' = sources s"
    and rs: "\<And>x. readyState s' x \<noteq> CLOSED \<Longrightarrow> readyState s x \<noteq> CLOSED \<and> eventSourceRef s' = Some x"
    and tm: "is_terminal c \<Longrightarrow> readyState s' e = CLOSED"
  shows "hook_inv s'"
proof -
  have nt: "\<forall>c \<in> set (observed s e). \<not> is_terminal c"
    using live_no_terminal[OF inv, of e] lv by (simp add: live_def)
  have a: "\<forall>x. readyState s' x \<noteq> CLOSED \<longrightarrow> x < length (sources s') \<and> eventSourceRef s' = Some x"
    using inv rs so unfolding hook_inv_def by metis
  have b: "\<forall>k \<in> set (called s'). source_of k < length (sources s')"
    using inv lv src c so by (auto simp: hook_inv_def live_def)
  have d: "\<forall>k \<in> set (called s'). is_terminal k \<longrightarrow> readyState s' (source_of k) = CLOSED"
  proof
    fix k assume k: "k \<in> set (called s')"
    show "is_terminal k \<longrightarrow> readyState s' (source_of k) = CLOSED"
    proof (cases "k = c")
      case True
      then show ?thesis using tm src by simp
    next
      case False
      then have "k \<in> set (called s)" using k c by simp
      then have "is_terminal k \<longrightarrow> readyState s (source_of k) = CLOSED"
        using inv by (simp add: hook_inv_def)
      then show ?thesis using rs by blast
    qed
  qed
  have f: "\<forall>x. terminal_last (observed s' x)"
  proof
    fix x
    have "observed s' x = (if source_of c = x then observed s x @ [c] else observed s x)"
      by (simp add: observed_def c)
    moreover have "terminal_last (observed s x)"
      using inv by (simp add: hook_inv_def)
    ultimately show "terminal_last (observed s' x)"
      using nt src terminal_last_snoc by auto
  qed
  show ?thesis
    unfolding hook_inv_def using a b d f by blast
qed

lemma inv_live:
  assumes "hook_inv s" and "readyState s x \<noteq> CLOSED"
  shows "x < length (sources s) \<and> eventSourceRef s = Some x"
  using assms unfolding hook_inv_def by blast

lemma only_ref_live:
  assumes "hook_inv s" and "eventSourceRef s = Some e" and "x \<noteq> e"
  shows "readyState s x = CLOSED"
  using inv_live[OF assms(1), of x] assms(2,3) by auto

lemma live_ref:
  assumes "hook_inv s" and "live s e"
  shows "eventSourceRef s = Some e"
  using inv_live[OF assms(1), of e] assms(2) by (simp add: live_def)

lemma all_closed_disconnect:
  assumes "hook_inv s"
  shows "readyState (disconnect s) x = CLOSED"
proof (cases "eventSourceRef s")
  case None
  then show ?thesis
    using inv_live[OF assms, of x] by (auto simp: readyState_disconnect)
next
  case (Some r)
  then show ?thesis
    using only_ref_live[OF assms Some, of x] by (auto simp: readyState_disconnect)
qed

lemma hook_inv_all_closed:
  assumes "hook_inv s" and "called s' = called s" and "sources s' = sources s"
    and "\<And>x. readyState s' x = CLOSED"
  shows "hook_inv s'"
  by (rule hook_inv_closing[OF assms(1-3)]) (simp add: assms(4))

lemma hook_inv_fields:
  assumes "hook_inv s" and "called s' = called s" and "sources s' = sources s"
    and "eventSourceRef s' = eventSourceRef s" and "readyState s' = readyState s"
  shows "hook_inv s'"
  by (rule hook_inv_closing[OF assms(1-3)]) (use inv_live[OF assms(1)] assms(4,5) in auto)

lemma hook_inv_restate:
  assumes "hook_inv s" and "live s e" and "called s' = called s" and "sources s' = sources s"
    and "eventSourceRef s' = eventSourceRef s" and "readyState s' = (readyState s)(e := st)"
  shows "hook_inv s'"
proof (rule hook_inv_closing[OF assms(1,3,4)])
  fix x assume x: "readyState s' x \<noteq> CLOSED"
  have r: "eventSourceRef s = Some e" using assms(1,2) by (rule live_ref)
  have "x = e"
  proof (rule ccontr)
    assume "x \<noteq> e"
    then have "readyState s x = CLOSED" using only_ref_live[OF assms(1) r] by simp
    then show False using x \<open>x \<noteq> e\<close> by (simp add: assms(6))
  qed
  then show "readyState s x \<noteq> CLOSED \<and> eventSourceRef s' = Some x"
    using assms(2) r by (simp add: live_def assms(5))
qed

lemma hook_inv_callback_live:
  assumes "hook_inv s" and "live s e" and "source_of c = e" and "\<not> is_terminal c"
    and "called s' = called s @ [c]" and "sources s' = sources s"
    and "eventSourceRef s' = eventSourceRef s" and "readyState s' = readyState s"
  shows "hook_inv s'"
  by (rule hook_inv_callback[OF assms(1,2,3,5,6)])
     (use inv_live[OF assms(1)] assms(4,7,8) in auto)

lemma hook_inv_callback_closed:
  assumes "hook_inv s" and "live s e" and "source_of c = e"
    and "called s' = called s @ [c]" and "sources s' = sources s"
    and "\<And>x. readyState s' x = CLOSED"
  shows "hook_inv s'"
  by (rule hook_inv_callback[OF assms(1,2,3,4,5)]) (simp_all add: assms(6))

lemma hook_inv_disconnect: "hook_inv s \<Longrightarrow> hook_inv (disconnect s)"
  by (rule hook_inv_all_closed[where s = s]) (simp_all add: all_closed_disconnect)

lemma hook_inv_connect:
  assumes "hook_inv s"
  shows "hook_inv (connect sessionId query s)"
proof -
  let ?s1 = "disconnect s" and ?s' = "connect sessionId query s"
  have cl: "\<And>e. readyState ?s1 e = CLOSED" using assms by (rule all_closed_disconnect)
  have c: "called ?s' = called s" and so: "sources ?s' = sources s @ [(sessionId, query)]"
    and rf: "eventSourceRef ?s' = Some (length (sources s))"
    and rs: "readyState ?s' = (readyState ?s1)(length (sources s) := CONNECTING)"
    by (simp_all add: connect_def Let_def)
  have a: "\<forall>x. readyState ?s' x \<noteq> CLOSED \<longrightarrow> x < length (sources ?s') \<and> eventSourceRef ?s' = Some x"
    using cl by (simp add: rs so rf)
  have b: "\<forall>k \<in> set (called ?s'). source_of k < length (sources ?s')"
    using assms by (auto simp: c so hook_inv_def)
  have d: "\<forall>k \<in> set (called ?s'). is_terminal k \<longrightarrow> readyState ?s' (source_of k) = CLOSED"
    using assms cl by (auto simp: c rs hook_inv_def)
  have f: "\<forall>x. terminal_last (observed ?s' x)"
    using assms by (simp add: observed_def c hook_inv_def)
  show ?thesis unfolding hook_inv_def using a b d f by blast
qed

lemma hook_inv_on_open:
  assumes "hook_inv s" and "live s e"
  shows "hook_inv (on_open e (s\<lparr>readyState := (readyState s)(e := OPEN)\<rparr>))"
  by (rule hook_inv_restate[OF assms, where st = OPEN]) (simp_all add: on_open_def)

lemma hook_inv_on_message_chunk:
  assumes "hook_inv s" and "live s e"
  shows "hook_inv (on_message_chunk e data s)"
proof (cases data)
  case None
  then show ?thesis using assms by (simp add: on_message_chunk_def)
next
  case (Some d)
  show ?thesis
    by (rule hook_inv_callback_live[OF assms, where c = "OnMessageChunk e d"])
       (simp_all add: Some on_message_chunk_def source_of_def is_terminal_def)
qed

lemma hook_inv_on_chart_ready:
  assumes "hook_inv s" and "live s e"
  shows "hook_inv (on_chart_ready e data s)"
proof (cases data)
  case None
  then show ?thesis using assms by (simp add: on_chart_ready_def)
next
  case (Some d)
  show ?thesis
    by (rule hook_inv_callback_live[OF assms, where c = "OnChartReady e d"])
       (simp_all add: Some on_chart_ready_def source_of_def is_terminal_def)
qed

lemma hook_inv_on_message_complete:
  assumes "hook_inv s" and "live s e"
  shows "hook_inv (on_message_complete e data s)"
proof (cases data)
  case None
  then show ?thesis using assms by (simp add: on_message_complete_def)
next
  case (Some d)
  have r: "eventSourceRef s = Some e" using assms by (rule live_ref)
  have cl: "((readyState s)(e := CLOSED)) x = CLOSED" for x
    using only_ref_live[OF assms(1) r, of x] by auto
  show ?thesis
    by (rule hook_inv_callback_closed[OF assms, where c = "OnMessageComplete e d"])
       (use cl in \<open>simp_all add: Some r on_message_complete_def close_def Let_def source_of_def\<close>)
qed

lemma hook_inv_on_error_event:
  assumes "hook_inv s" and "live s e"
  shows "hook_inv (on_error_event e data s)"
proof (cases data)
  case None
  then show ?thesis using assms by (simp add: on_error_event_def)
next
  case (Some d)
  have r: "eventSourceRef s = Some e" using assms by (rule live_ref)
  have cl: "((readyState s)(e := CLOSED)) x = CLOSED" for x
    using only_ref_live[OF assms(1) r, of x] by auto
  show ?thesis
    by (rule hook_inv_callback_closed[OF assms, where c = "OnError e d"])
       (use cl in \<open>simp_all add: Some r on_error_event_def readyState_disconnect source_of_def\<close>)
qed

lemma hook_inv_onerror:
  assumes "hook_inv s" and "e < length (sources s)"
  shows "hook_inv (onerror opts e s)"
proof (cases "readyState s e = CLOSED")
  case True
  show ?thesis
    by (rule hook_inv_fields[OF assms(1)]) (simp_all add: True onerror_def)
next
  case False
  then have lv: "live s e" using assms by (simp add: live_def)
  let ?s1 = "s\<lparr>isConnected := False, isConnecting := False, called := called s @ [OnConnectionError e]\<rparr>"
  have i1: "hook_inv ?s1"
    by (rule hook_inv_callback_live[OF assms(1) lv, where c = "OnConnectionError e"])
       (simp_all add: source_of_def is_terminal_def)
  show ?thesis
  proof (cases "reconnectAttemptsRef s < maxReconnectAttempts opts")
    case True
    show ?thesis
      by (rule hook_inv_fields[OF i1]) (simp_all add: True False onerror_def Let_def)
  next
    case lim: False
    have "onerror opts e s = disconnect (?s1\<lparr>error := Some RetriesExhausted\<rparr>)"
      using False lim by (simp add: onerror_def Let_def)
    moreover have "hook_inv (?s1\<lparr>error := Some RetriesExhausted\<rparr>)"
      by (rule hook_inv_fields[OF i1]) simp_all
    ultimately show ?thesis by (simp add: hook_inv_disconnect)
  qed
qed

lemma sources_on_error_event [simp]: "sources (on_error_event e data s) = sources s"
  by (cases data) (simp_all add: on_error_event_def)

lemma hook_inv_step:
  assumes "hook_inv s"
  shows "hook_inv (step opts s ev)"
proof (cases ev)
  case (Open e)
  then show ?thesis using assms by (simp add: hook_inv_on_open)
next
  case (Chunk e data)
  then show ?thesis using assms by (simp add: hook_inv_on_message_chunk)
next
  case (ChartReady e data)
  then show ?thesis using assms by (simp add: hook_inv_on_chart_ready)
next
  case (Complete e data)
  then show ?thesis using assms by (simp add: hook_inv_on_message_complete)
next
  case (ServerError e data)
  show ?thesis
  proof (cases "live s e")
    case True
    have "hook_inv (on_error_event e data s)" using assms True by (rule hook_inv_on_error_event)
    moreover have "e < length (sources (on_error_event e data s))"
      using True by (simp add: live_def)
    ultimately show ?thesis using True ServerError by (simp add: hook_inv_onerror)
  next
    case False
    then show ?thesis using assms ServerError by simp
  qed
next
  case (ConnectionError e fatal)
  show ?thesis
  proof (cases "live s e")
    case True
    let ?s1 = "s\<lparr>readyState := (readyState s)(e := (if fatal then CLOSED else CONNECTING))\<rparr>"
    have "hook_inv ?s1"
      by (rule hook_inv_restate[OF assms True, where st = "if fatal then CLOSED else CONNECTING"]) simp_all
    moreover have "e < length (sources ?s1)" using True by (simp add: live_def)
    ultimately show ?thesis
      using True ConnectionError by (simp add: hook_inv_onerror on_error_event_def)
  next
    case False
    then show ?thesis using assms ConnectionError by simp
  qed
next
  case (Timeout t)
  have "hook_inv (clearTimeout t s)"
    by (rule hook_inv_fields[OF assms]) (simp_all add: clearTimeout_def)
  then show ?thesis
    using assms Timeout by (auto simp: hook_inv_connect split: list.splits)
next
  case (CallConnect sessionId query)
  then show ?thesis using assms by (simp add: hook_inv_connect)
next
  case CallDisconnect
  then show ?thesis using assms by (simp add: hook_inv_disconnect)
next
  case CallResetContent
  have "hook_inv (resetContent s)"
    by (rule hook_inv_fields[OF assms]) (simp_all add: resetContent_def)
  then show ?thesis using CallResetContent by simp
qed (use assms in simp_all)

lemma hook_inv_foldl: "hook_inv s \<Longrightarrow> hook_inv (foldl (step opts) s evs)"
  by (induction evs arbitrary: s) (simp_all add: hook_inv_step)

lemma hook_inv_run: "hook_inv (run opts evs)"
  unfolding run_def by (rule hook_inv_foldl) (rule hook_inv_initial)

lemma terminal_last_count:
  assumes "terminal_last obs"
  shows "length (filter is_terminal obs) \<le> 1"
proof (cases obs rule: rev_cases)
  case Nil
  then show ?thesis by simp
next
  case (snoc ys y)
  then have "filter is_terminal ys = []"
    using assms by (auto simp: terminal_last_def filter_empty_conv)
  then show ?thesis using snoc by simp
qed

lemma not_live_step:
  assumes "event_source ev = Some e" and "\<not> live s e"
  shows "step opts s ev = s"
  using assms by (cases ev) (simp_all add: event_source_def)

text \<open>
  Stream by stream: at most one terminal callback (\<open>onMessageComplete\<close> or \<open>onError\<close>) is
  made for an EventSource, no callback of that EventSource comes after it, the EventSource is
  closed once it was made, and every later event of that EventSource leaves the hook as it is.
\<close>

lemma terminal_callback_is_last:
  "length (filter is_terminal (observed (run opts evs) e)) \<le> 1 \<and>
   (\<forall>c \<in> set (butlast (observed (run opts evs) e)). \<not> is_terminal c) \<and>
   (\<forall>c \<in> set (called (run opts evs)). is_terminal c \<longrightarrow>
      \<not> live (run opts evs) (source_of c) \<and>
      (\<forall>ev. event_source ev = Some (source_of c) \<longrightarrow> step opts (run opts evs) ev = run opts evs))"
proof -
  have inv: "hook_inv (run opts evs)" by (rule hook_inv_run)
  then have "terminal_last (observed (run opts evs) e)"
    by (simp add: hook_inv_def)
  then have a: "length (filter is_terminal (observed (run opts evs) e)) \<le> 1"
    and b: "\<forall>c \<in> set (butlast (observed (run opts evs) e)). \<not> is_terminal c"
    using terminal_last_count by (auto simp: terminal_last_def)
  have c: "\<not> live (run opts evs) (source_of c)"
    if "c \<in> set (called (run opts evs))" and "is_terminal c" for c
    using inv that by (simp add: hook_inv_def live_def)
  show ?thesis
    using a b c not_live_step by blast
qed

subsection \<open>Ending the stream\<close>

lemma refs_cleared_disconnect: "refs_cleared (disconnect s)"
  by (simp add: refs_cleared_def)

lemma timers_disconnect:
  "timers (disconnect s) =
     (case reconnectTimeoutRef s of None \<Rightarrow> timers s
      | Some t \<Rightarrow> filter (\<lambda>x. fst x \<noteq> t) (timers s))"
  by (simp add: disconnect_def close_def clearTimeout_def Let_def split: option.splits)

lemma next_timer_disconnect [simp]: "next_timer (disconnect s) = next_timer s"
  by (simp add: disconnect_def close_def clearTimeout_def Let_def split: option.splits)

lemma timer_inv_disconnect: "timer_inv s \<Longrightarrow> timer_inv (disconnect s)"
  by (auto simp: timer_inv_def timers_disconnect distinct_map_filter split: option.splits)

lemma timer_inv_connect_weak:
  assumes "distinct (map fst (timers s))" and "\<forall>x \<in> set (timers s). fst x < next_timer s"
  shows "timer_inv (connect sessionId query s)"
  using assms
  by (auto simp: timer_inv_def connect_def Let_def timers_disconnect distinct_map_filter
           split: option.splits)

lemma timer_inv_connect: "timer_inv s \<Longrightarrow> timer_inv (connect sessionId query s)"
  by (rule timer_inv_connect_weak) (simp_all add: timer_inv_def)

lemma timer_inv_on_error_event: "timer_inv s \<Longrightarrow> timer_inv (on_error_event e data s)"
proof (cases data)
  case None
  then show "timer_inv s \<Longrightarrow> ?thesis" by (simp add: on_error_event_def)
next
  case (Some d)
  assume "timer_inv s"
  then have "timer_inv (s\<lparr>error := Some (ServerMessage (error_message d)), called := called s @ [OnError e d]\<rparr>)"
    by (simp add: timer_inv_def)
  then show ?thesis by (simp add: Some on_error_event_def timer_inv_disconnect)
qed

lemma timer_inv_onerror: "timer_inv s \<Longrightarrow> timer_inv (onerror opts e s)"
proof -
  assume a: "timer_inv s"
  let ?s1 = "s\<lparr>isConnected := False, isConnecting := False,
                called := called s @ [OnConnectionError e], error := Some RetriesExhausted\<rparr>"
  have "timer_inv ?s1" using a by (simp add: timer_inv_def)
  then have "timer_inv (disconnect ?s1)" by (rule timer_inv_disconnect)
  then show ?thesis
    using a by (auto simp: onerror_def Let_def timer_inv_def)
qed

lemma timer_inv_step: "timer_inv s \<Longrightarrow> timer_inv (step opts s ev)"
proof (cases ev)
  case (Open e)
  assume "timer_inv s"
  then show ?thesis using Open by (simp add: on_open_def timer_inv_def)
next
  case (Chunk e data)
  assume "timer_inv s"
  then show ?thesis using Chunk by (cases data) (simp_all add: on_message_chunk_def timer_inv_def)
next
  case (ChartReady e data)
  assume "timer_inv s"
  then show ?thesis using ChartReady by (cases data) (simp_all add: on_chart_ready_def timer_inv_def)
next
  case (Complete e data)
  assume "timer_inv s"
  then show ?thesis using Complete
    by (cases data) (simp_all add: on_message_complete_def close_def timer_inv_def Let_def split: option.splits)
next
  case (ServerError e data)
  assume "timer_inv s"
  then show ?thesis using ServerError by (simp add: timer_inv_onerror timer_inv_on_error_event)
next
  case (ConnectionError e fatal)
  assume a: "timer_inv s"
  then have "timer_inv (s\<lparr>readyState := (readyState s)(e := (if fatal then CLOSED else CONNECTING))\<rparr>)"
    by (simp add: timer_inv_def)
  then show ?thesis using a ConnectionError
    by (simp add: timer_inv_onerror on_error_event_def)
next
  case (Timeout t)
  assume a: "timer_inv s"
  have "timer_inv (connect sessionId query (clearTimeout t s))" for sessionId query
    by (rule timer_inv_connect_weak)
       (use a in \<open>auto simp: timer_inv_def clearTimeout_def distinct_map_filter\<close>)
  then show ?thesis using a Timeout by (auto split: list.splits)
next
  case (CallConnect sessionId query)
  assume "timer_inv s"
  then show ?thesis using CallConnect by (simp add: timer_inv_connect)
next
  case CallDisconnect
  assume "timer_inv s"
  then show ?thesis using CallDisconnect by (simp add: timer_inv_disconnect)
next
  case CallResetContent
  assume "timer_inv s"
  then show ?thesis using CallResetContent by (simp add: resetContent_def timer_inv_def)
qed simp_all

lemma timer_inv_foldl: "timer_inv s \<Longrightarrow> timer_inv (foldl (step opts) s evs)"
  by (induction evs arbitrary: s) (simp_all add: timer_inv_step)

lemma timer_inv_run: "timer_inv (run opts evs)"
  unfolding run_def by (rule timer_inv_foldl) (simp add: timer_inv_def initial_def)

lemma filter_absent_fst:
  "t \<notin> fst ` set ts \<Longrightarrow> filter (\<lambda>x. fst x \<noteq> t) ts = ts"
  by (induction ts) auto

lemma length_filter_distinct_fst:
  assumes "distinct (map fst ts)"
  shows "length ts \<le> Suc (length (filter (\<lambda>x. fst x \<noteq> t) ts))"
  using assms by (induction ts) (auto simp: filter_absent_fst)

text \<open>The three ways out all end in \<open>disconnect\<close>, which clears what the refs hold.\<close>

lemma stream_end_clears_refs:
  assumes "s = run opts evs"
  shows "refs_cleared (step opts s CallDisconnect)"
    and "live s e \<Longrightarrow> refs_cleared (step opts s (ServerError e (Some d)))"
    and "live s e \<Longrightarrow> \<not> reconnectAttemptsRef s < maxReconnectAttempts opts \<Longrightarrow>
         refs_cleared (step opts s (ConnectionError e False))"
proof -
  show "refs_cleared (step opts s CallDisconnect)"
    by (simp add: refs_cleared_disconnect)
next
  assume lv: "live s e"
  have inv: "hook_inv s" using assms by (simp add: hook_inv_run)
  have r: "eventSourceRef s = Some e" using inv lv by (rule live_ref)
  let ?s1 = "on_error_event e (Some d) s"
  have "readyState ?s1 e = CLOSED"
    by (simp add: on_error_event_def readyState_disconnect r)
  moreover have "refs_cleared ?s1"
    by (simp add: on_error_event_def refs_cleared_disconnect)
  ultimately show "refs_cleared (step opts s (ServerError e (Some d)))"
    using lv by (simp add: onerror_def refs_cleared_def)
next
  assume lv: "live s e" and ex: "\<not> reconnectAttemptsRef s < maxReconnectAttempts opts"
  show "refs_cleared (step opts s (ConnectionError e False))"
    using lv ex by (simp add: onerror_def on_error_event_def Let_def refs_cleared_disconnect)
qed

lemma four_errors:
  "run default_options
     [CallConnect ''s1'' ''q'', ConnectionError 0 False, ConnectionError 0 False,
      ConnectionError 0 False] =
   \<lparr>isConnected = False, isConnecting = False, error = Some (RetryNotice 3000 3 3),
    accumulatedContent = [], eventSourceRef = Some 0, reconnectAttemptsRef = 3,
    reconnectTimeoutRef = Some 3,
    readyState = (\<lambda>_. CLOSED)(0 := CONNECTING), sources = [(''s1'', ''q'')],
    timers = [(1, ''s1'', ''q''), (2, ''s1'', ''q''), (3, ''s1'', ''q'')], next_timer = 4,
    called = [OnConnectionError 0, OnConnectionError 0, OnConnectionError 0]\<rparr>"
  by (simp add: run_def initial_def default_options_def connect_def disconnect_def live_def
        on_error_event_def onerror_def Let_def)

text \<open>
  Claim C9. Each of the three ways out of a stream runs \<open>disconnect\<close> last, and the refs are
  cleared by it (\<open>stream_end_clears_refs\<close>). The pending timeouts are not: \<open>onerror\<close> overwrites
  \<open>reconnectTimeoutRef\<close> with each new timeout without clearing the one it held, and
  \<open>disconnect\<close> clears only the one the ref names. The retry counter is reset by every
  \<open>connect\<close>, so it reaches a maximum of two or more only through errors that arrive before
  any timeout fires; retries are then exhausted with earlier timeouts still pending, and the
  hook is not quiescent.
\<close>

theorem exhausted_retries_leave_timers_pending:
  assumes "2 \<le> maxReconnectAttempts opts" and "s = run opts evs" and "live s e"
    and "\<not> reconnectAttemptsRef s < maxReconnectAttempts opts"
  shows "refs_cleared (step opts s (ConnectionError e False)) \<and>
         \<not> quiescent (step opts s (ConnectionError e False))"
proof -
  have ti: "timer_inv s" using assms(2) by (simp add: timer_inv_run)
  have len: "2 \<le> length (timers s)"
    using ti assms(1,4) by (simp add: timer_inv_def)
  have d: "distinct (map fst (timers s))" using ti by (simp add: timer_inv_def)
  let ?s' = "step opts s (ConnectionError e False)"
  have t: "timers ?s' =
          (case reconnectTimeoutRef s of None \<Rightarrow> timers s
           | Some t \<Rightarrow> filter (\<lambda>x. fst x \<noteq> t) (timers s))"
    using assms(3,4)
    by (simp add: onerror_def on_error_event_def Let_def timers_disconnect split: option.splits)
  have "timers ?s' \<noteq> []"
  proof (cases "reconnectTimeoutRef s")
    case None
    then show ?thesis using t len by auto
  next
    case (Some x)
    have "length (timers s) \<le> Suc (length (filter (\<lambda>y. fst y \<noteq> x) (timers s)))"
      using d by (rule length_filter_distinct_fst)
    then have "1 \<le> length (filter (\<lambda>y. fst y \<noteq> x) (timers s))"
      using len by linarith
    then show ?thesis using t Some by auto
  qed
  then show ?thesis
    using stream_end_clears_refs(3)[OF assms(2,3,4)] by (simp add: quiescent_def)
qed


theorem exhausted_retries_leave_timers_pending_witness:
  "refs_cleared
     (step default_options
        (run default_options
           [CallConnect ''s1'' ''q'', ConnectionError 0 False, ConnectionError 0 False,
            ConnectionError 0 False])
        (ConnectionError 0 False)) \<and>
   \<not> quiescent
     (step default_options
        (run default_options
           [CallConnect ''s1'' ''q'', ConnectionError 0 False, ConnectionError 0 False,
            ConnectionError 0 False])
        (ConnectionError 0 False)) \<and>
   timers
     (step default_options
        (run default_options
           [CallConnect ''s1'' ''q'', ConnectionError 0 False, ConnectionError 0 False,
            ConnectionError 0 False])
        (ConnectionError 0 False)) = [(1, ''s1'', ''q''), (2, ''s1'', ''q'')] \<and>
   eventSourceRef
     (step default_options
        (step default_options
           (run default_options
              [CallConnect ''s1'' ''q'', ConnectionError 0 False, ConnectionError 0 False,
               ConnectionError 0 False])
           (ConnectionError 0 False))
        (Timeout 1)) = Some 1 \<and>
   isConnecting
     (step default_options
        (step default_options
           (run default_options
              [CallConnect ''s1'' ''q'', ConnectionError 0 False, ConnectionError 0 False,
               ConnectionError 0 False])
           (ConnectionError 0 False))
        (Timeout 1))"
proof -
  let ?evs = "[CallConnect ''s1'' ''q'', ConnectionError 0 False, ConnectionError 0 False,
               ConnectionError 0 False]"
  have a: "2 \<le> maxReconnectAttempts default_options"
    by (simp add: default_options_def)
  have b: "live (run default_options ?evs) 0"
    by (simp add: four_errors live_def)
  have c: "\<not> reconnectAttemptsRef (run default_options ?evs) < maxReconnectAttempts default_options"
    unfolding four_errors by (simp add: default_options_def)
  from exhausted_retries_leave_timers_pending[OF a refl b c] show ?thesis
    unfolding four_errors
    by (simp add: live_def default_options_def connect_def disconnect_def
          clearTimeout_def close_def on_error_event_def onerror_def Let_def)
qed

subsection \<open>One turn\<close>

lemma idle_not_live: "idle s \<Longrightarrow> \<not> live s e"
  by (auto simp: idle_def live_def list_all_iff)

lemma idleI: "timers s = [] \<Longrightarrow> (\<And>e. \<not> live s e) \<Longrightarrow> idle s"
  by (auto simp: idle_def live_def list_all_iff)

lemma idle_step:
  assumes "idle s" and "\<not> is_connect_call ev"
  shows "idle (step opts s ev) \<and> called (step opts s ev) = called s"
proof (cases "event_source ev")
  case (Some e)
  then have "step opts s ev = s"
    using idle_not_live[OF assms(1)] by (rule not_live_step)
  then show ?thesis using assms(1) by simp
next
  case None
  show ?thesis
  proof (cases ev)
    case (Timeout t)
    then show ?thesis using assms(1) by (simp add: idle_def)
  next
    case CallDisconnect
    have "timers (disconnect s) = []"
      using assms(1) by (simp add: timers_disconnect idle_def split: option.splits)
    moreover have "list_all (\<lambda>e. readyState (disconnect s) e = CLOSED) [0..<length (sources s)]"
      using assms(1) by (auto simp: idle_def readyState_disconnect list_all_iff split: option.splits)
    ultimately show ?thesis using CallDisconnect by (simp add: idle_def)
  next
    case CallResetContent
    then show ?thesis using assms(1) by (simp add: idle_def resetContent_def)
  next
    case (CallConnect a b)
    then show ?thesis using assms(2) by (simp add: is_connect_call_def)
  qed (use None in \<open>simp_all add: event_source_def\<close>)
qed

lemma idle_foldl:
  assumes "idle s" and "\<forall>x \<in> set evs. \<not> is_connect_call x"
  shows "idle (foldl (step opts) s evs) \<and> called (foldl (step opts) s evs) = called s"
  using assms
proof (induction evs arbitrary: s)
  case Nil
  then show ?case by simp
next
  case (Cons ev evs)
  have 1: "idle (step opts s ev)" and 2: "called (step opts s ev) = called s"
    using idle_step[OF Cons.prems(1), of ev opts] Cons.prems(2) by simp_all
  show ?case
    using Cons.IH[OF 1] Cons.prems(2) 2 by simp
qed

lemma called_grows_step: "length (called s) \<le> length (called (step opts s ev))"
proof (cases ev)
  case (Chunk e data)
  then show ?thesis by (cases data) (simp_all add: on_message_chunk_def)
next
  case (ChartReady e data)
  then show ?thesis by (cases data) (simp_all add: on_chart_ready_def)
next
  case (Complete e data)
  then show ?thesis
    by (cases data) (simp_all add: on_message_complete_def close_def Let_def split: option.splits)
next
  case (ServerError e data)
  then show ?thesis
    by (cases data) (auto simp: on_error_event_def onerror_def Let_def)
next
  case (ConnectionError e fatal)
  then show ?thesis by (auto simp: on_error_event_def onerror_def Let_def)
next
  case (Timeout t)
  then show ?thesis by (auto simp: connect_def Let_def clearTimeout_def split: list.splits)
next
  case (CallConnect a b)
  then show ?thesis by (simp add: connect_def Let_def)
qed (simp_all add: on_open_def resetContent_def)

lemma called_grows_foldl: "length (called s) \<le> length (called (foldl (step opts) s evs))"
proof (induction evs arbitrary: s)
  case Nil
  show ?case by simp
next
  case (Cons ev evs)
  show ?case
    using called_grows_step[of s opts ev] Cons[of "step opts s ev"] by simp
qed

lemma hook_inv_reach:
  assumes "s0 = run opts before"
  shows "hook_inv (foldl (step opts) (step opts s0 ev) evs)"
  unfolding assms by (rule hook_inv_foldl) (rule hook_inv_step, rule hook_inv_run)

lemma terminal_step_closes:
  assumes "hook_inv s" and "called (step opts s ev) = called s @ [c]" and "is_terminal c"
  shows "\<not> live (step opts s ev) x"
proof -
  have inv': "hook_inv (step opts s ev)" using assms(1) by (rule hook_inv_step)
  have "eventSourceRef (step opts s ev) = None"
  proof (cases ev)
    case (Chunk e data)
    then show ?thesis using assms(2,3)
      by (cases data) (auto simp: on_message_chunk_def is_terminal_def split: if_splits)
  next
    case (ChartReady e data)
    then show ?thesis using assms(2,3)
      by (cases data) (auto simp: on_chart_ready_def is_terminal_def split: if_splits)
  next
    case (Complete e data)
    then show ?thesis using assms(2)
      by (cases data)
         (auto simp: on_message_complete_def close_def Let_def split: if_splits option.splits)
  next
    case (ServerError e data)
    show ?thesis
    proof (cases "live s e")
      case False
      then show ?thesis using assms(2) ServerError by simp
    next
      case True
      have r: "eventSourceRef s = Some e" using assms(1) True by (rule live_ref)
      show ?thesis
      proof (cases data)
        case None
        then show ?thesis using assms(2,3) ServerError True
          by (auto simp: on_error_event_def onerror_def Let_def is_terminal_def split: if_splits)
      next
        case (Some d)
        have "readyState (on_error_event e (Some d) s) e = CLOSED"
          by (simp add: on_error_event_def readyState_disconnect r)
        then show ?thesis using ServerError True Some
          by (simp add: onerror_def on_error_event_def)
      qed
    qed
  next
    case (ConnectionError e fatal)
    then show ?thesis using assms(2,3)
      by (auto simp: on_error_event_def onerror_def Let_def is_terminal_def split: if_splits)
  next
    case (Timeout t)
    then show ?thesis using assms(2)
      by (auto simp: connect_def Let_def clearTimeout_def split: list.splits)
  next
    case (CallConnect a b)
    then show ?thesis using assms(2) by (simp add: connect_def Let_def)
  qed (use assms(2) in \<open>simp_all add: on_open_def resetContent_def split: if_splits\<close>)
  then show ?thesis
    using inv_live[OF inv', of x] by (auto simp: live_def)
qed

lemma terminal_step_single:
  assumes "hook_inv s" and "c \<in> set (observed_since s (step opts s ev))" and "is_terminal c"
  shows "called (step opts s ev) = called s @ [c]"
proof (cases ev)
  case (Chunk e data)
  then show ?thesis using assms(2,3)
    by (cases data)
       (auto simp: observed_since_def on_message_chunk_def is_terminal_def split: if_splits)
next
  case (ChartReady e data)
  then show ?thesis using assms(2,3)
    by (cases data)
       (auto simp: observed_since_def on_chart_ready_def is_terminal_def split: if_splits)
next
  case (Complete e data)
  then show ?thesis using assms(2)
    by (cases data)
       (auto simp: observed_since_def on_message_complete_def close_def Let_def
             split: if_splits option.splits)
next
  case (ServerError e data)
  show ?thesis
  proof (cases "live s e")
    case False
    then show ?thesis using assms(2) ServerError by (simp add: observed_since_def)
  next
    case True
    have r: "eventSourceRef s = Some e" using assms(1) True by (rule live_ref)
    show ?thesis
    proof (cases data)
      case None
      then show ?thesis using assms(2,3) ServerError True
        by (auto simp: observed_since_def on_error_event_def onerror_def Let_def is_terminal_def
                 split: if_splits)
    next
      case (Some d)
      have "readyState (on_error_event e (Some d) s) e = CLOSED"
        by (simp add: on_error_event_def readyState_disconnect r)
      then show ?thesis using ServerError True Some assms(2)
        by (simp add: onerror_def on_error_event_def observed_since_def)
    qed
  qed
next
  case (ConnectionError e fatal)
  then show ?thesis using assms(2,3)
    by (auto simp: observed_since_def on_error_event_def onerror_def Let_def is_terminal_def
             split: if_splits)
next
  case (Timeout t)
  then show ?thesis using assms(2)
    by (auto simp: observed_since_def connect_def Let_def clearTimeout_def split: list.splits)
next
  case (CallConnect a b)
  then show ?thesis using assms(2) by (simp add: observed_since_def connect_def Let_def)
qed (use assms(2) in \<open>simp_all add: observed_since_def on_open_def resetContent_def split: if_splits\<close>)

text \<open>
  Claim C3, as amended. A turn runs from a \<open>connect\<close> call of the component (state \<open>s0\<close>
  before it) up to the component's next \<open>connect\<close> call; \<open>mid\<close>, \<open>ev\<close> and \<open>post\<close> are what
  happens in it, reconnects by the hook's own timeout included. Let no terminal callback have
  been made before \<open>ev\<close> and no reconnect timeout be pending once \<open>ev\<close> has been handled.
  If handling \<open>ev\<close> makes a terminal callback (\<open>onMessageComplete\<close> or \<open>onError\<close>), then it
  is the only terminal callback of the turn and the last callback of any kind: whatever
  arrives afterwards reaches nobody, every EventSource is closed and no timeout is pending.
  If \<open>ev\<close> is the component's \<open>disconnect\<close> or a connection error after which the browser
  has closed the live EventSource for good, then the turn has no terminal callback at all and
  no callback follows.
\<close>

theorem turn_ends_at_its_terminal_event:
  assumes "s0 = run opts before"
    and "s1 = foldl (step opts) (step opts s0 (CallConnect sessionId query)) mid"
    and "s2 = step opts s1 ev"
    and "s3 = foldl (step opts) s2 post"
    and "\<forall>x \<in> set (mid @ ev # post). \<not> is_connect_call x"
    and "filter is_terminal (observed_since s0 s1) = []"
    and "timers s2 = []"
  shows "(\<forall>c. is_terminal c \<and> c \<in> set (observed_since s1 s2) \<longrightarrow>
            observed_since s0 s3 = observed_since s0 s1 @ [c] \<and>
            filter is_terminal (observed_since s0 s3) = [c] \<and> idle s3) \<and>
         (ev = CallDisconnect \<or> (\<exists>e. ev = ConnectionError e True \<and> live s1 e) \<longrightarrow>
            observed_since s0 s3 = observed_since s0 s1 \<and>
            filter is_terminal (observed_since s0 s3) = [] \<and> idle s3)"
proof -
  have inv1: "hook_inv s1"
    unfolding assms(2) using assms(1) by (rule hook_inv_reach)
  have post: "\<forall>x \<in> set post. \<not> is_connect_call x"
    using assms(5) by simp
  have len: "length (called s0) \<le> length (called s1)"
    unfolding assms(2)
    using called_grows_step[of s0 opts "CallConnect sessionId query"]
          called_grows_foldl[of "step opts s0 (CallConnect sessionId query)" opts mid]
    by linarith
  have rest: "idle s3 \<and> called s3 = called s2" if "idle s2"
    unfolding assms(4) using that post by (rule idle_foldl)
  have a: "observed_since s0 s3 = observed_since s0 s1 @ [c] \<and>
           filter is_terminal (observed_since s0 s3) = [c] \<and> idle s3"
    if c: "is_terminal c" and m: "c \<in> set (observed_since s1 s2)" for c
  proof -
    have g: "called s2 = called s1 @ [c]"
      unfolding assms(3) by (rule terminal_step_single[OF inv1 _ c]) (use m assms(3) in simp)
    have "\<not> live s2 x" for x
      unfolding assms(3)
      by (rule terminal_step_closes[OF inv1 _ c]) (use g assms(3) in simp)
    then have "idle s2" using assms(7) by (simp add: idleI)
    then have "idle s3" and "called s3 = called s1 @ [c]"
      using rest g by simp_all
    then show ?thesis
      using len assms(6) c by (simp add: observed_since_def)
  qed
  have b: "observed_since s0 s3 = observed_since s0 s1 \<and>
           filter is_terminal (observed_since s0 s3) = [] \<and> idle s3"
    if e: "ev = CallDisconnect \<or> (\<exists>e. ev = ConnectionError e True \<and> live s1 e)"
  proof -
    have "(\<forall>x. \<not> live s2 x) \<and> called s2 = called s1"
      using e
    proof
      assume "ev = CallDisconnect"
      then show ?thesis
        unfolding assms(3) using all_closed_disconnect[OF inv1] by (simp add: live_def)
    next
      assume "\<exists>e. ev = ConnectionError e True \<and> live s1 e"
      then obtain e where ev: "ev = ConnectionError e True" and lv: "live s1 e" by blast
      have r: "eventSourceRef s1 = Some e" using inv1 lv by (rule live_ref)
      have rs: "readyState s2 = (readyState s1)(e := CLOSED)" and c: "called s2 = called s1"
        and so: "sources s2 = sources s1"
        unfolding assms(3) using lv by (simp_all add: ev on_error_event_def onerror_def)
      have "readyState s2 x = CLOSED" for x
        using only_ref_live[OF inv1 r, of x] by (auto simp: rs)
      then show ?thesis using c by (simp add: live_def)
    qed
    then have "idle s2" and c2: "called s2 = called s1"
      using assms(7) by (simp_all add: idleI)
    then have "idle s3" and "called s3 = called s1"
      using rest by simp_all
    then show ?thesis
      using assms(6) by (simp add: observed_since_def)
  qed
  show ?thesis using a b by blast
qed

text \<open>The turn of \<open>s1\<close> up to its first chunk, and the same turn completed.\<close>

lemma example_dropped_stream:
  "run default_options
     [CallConnect ''s1'' ''q'', Open 0, Chunk 0 (Some \<lparr>content = ''ab'', is_final = False\<rparr>)] =
   \<lparr>isConnected = True, isConnecting = False, error = None, accumulatedContent = ''ab'',
    eventSourceRef = Some 0, reconnectAttemptsRef = 0, reconnectTimeoutRef = None,
    readyState = (\<lambda>_. CLOSED)(0 := OPEN), sources = [(''s1'', ''q'')], timers = [],
    next_timer = 1, called = [OnMessageChunk 0 \<lparr>content = ''ab'', is_final = False\<rparr>]\<rparr>"
  by (simp add: run_def initial_def connect_def disconnect_def live_def on_open_def
        on_message_chunk_def Let_def)

lemma example_completed_stream:
  "step default_options
     (run default_options
        [CallConnect ''s1'' ''q'', Open 0, Chunk 0 (Some \<lparr>content = ''ab'', is_final = False\<rparr>)])
     (Complete 0 (Some \<lparr>message_id = 7, mc_sequence = 1, total_charts = 0\<rparr>)) =
   \<lparr>isConnected = False, isConnecting = False, error = None, accumulatedContent = ''ab'',
    eventSourceRef = None, reconnectAttemptsRef = 0, reconnectTimeoutRef = None,
    readyState = (\<lambda>_. CLOSED), sources = [(''s1'', ''q'')], timers = [],
    next_timer = 1,
    called = [OnMessageChunk 0 \<lparr>content = ''ab'', is_final = False\<rparr>,
              OnMessageComplete 0 \<lparr>message_id = 7, mc_sequence = 1, total_charts = 0\<rparr>]\<rparr>"
  unfolding example_dropped_stream
  by (simp add: live_def on_message_complete_def close_def Let_def fun_eq_iff)

theorem turn_ends_at_its_terminal_event_witness:
  "observed_since (run default_options [])
     (run default_options
        ([CallConnect ''s1'' ''q'', Open 0,
          Chunk 0 (Some \<lparr>content = ''ab'', is_final = False\<rparr>),
          Complete 0 (Some \<lparr>message_id = 7, mc_sequence = 1, total_charts = 0\<rparr>)] @
         [Chunk 0 (Some \<lparr>content = ''cd'', is_final = True\<rparr>),
          ServerError 0 (Some \<lparr>error_code = ''E'', error_message = ''late''\<rparr>),
          Timeout 1, CallDisconnect])) =
     [OnMessageChunk 0 \<lparr>content = ''ab'', is_final = False\<rparr>,
      OnMessageComplete 0 \<lparr>message_id = 7, mc_sequence = 1, total_charts = 0\<rparr>] \<and>
   filter is_terminal
     (observed_since (run default_options [])
        (run default_options
           ([CallConnect ''s1'' ''q'', Open 0,
             Chunk 0 (Some \<lparr>content = ''ab'', is_final = False\<rparr>),
             ConnectionError 0 True] @
            [Open 0, Chunk 0 (Some \<lparr>content = ''cd'', is_final = True\<rparr>),
             Complete 0 (Some \<lparr>message_id = 7, mc_sequence = 1, total_charts = 0\<rparr>),
             Timeout 1]))) = []"
proof -
  let ?s0 = "run default_options []"
  let ?mid = "[Open 0, Chunk 0 (Some \<lparr>content = ''ab'', is_final = False\<rparr>)]"
  let ?s1 = "foldl (step default_options) (step default_options ?s0 (CallConnect ''s1'' ''q'')) ?mid"
  let ?done = "Complete 0 (Some \<lparr>message_id = 7, mc_sequence = 1, total_charts = 0\<rparr>)"
  let ?post = "[Chunk 0 (Some \<lparr>content = ''cd'', is_final = True\<rparr>),
                ServerError 0 (Some \<lparr>error_code = ''E'', error_message = ''late''\<rparr>),
                Timeout 1, CallDisconnect]"
  let ?post' = "[Open 0, Chunk 0 (Some \<lparr>content = ''cd'', is_final = True\<rparr>), ?done, Timeout 1]"
  have s1: "?s1 = run default_options
                    [CallConnect ''s1'' ''q'', Open 0,
                     Chunk 0 (Some \<lparr>content = ''ab'', is_final = False\<rparr>)]"
    by (simp only: run_def foldl.simps)
  have s0: "called ?s0 = []" by (simp add: run_def initial_def)
  have first: "filter is_terminal (observed_since ?s0 ?s1) = []"
    unfolding s1 example_dropped_stream by (simp add: observed_since_def s0 is_terminal_def)
  have c1: "\<forall>x \<in> set (?mid @ ?done # ?post). \<not> is_connect_call x"
    by (simp add: is_connect_call_def)
  have c2: "\<forall>x \<in> set (?mid @ ConnectionError 0 True # ?post'). \<not> is_connect_call x"
    by (simp add: is_connect_call_def)
  have t1: "timers (step default_options ?s1 ?done) = []"
    unfolding s1 example_completed_stream by simp
  have g1: "is_terminal (OnMessageComplete 0 \<lparr>message_id = 7, mc_sequence = 1, total_charts = 0\<rparr>) \<and>
            OnMessageComplete 0 \<lparr>message_id = 7, mc_sequence = 1, total_charts = 0\<rparr>
              \<in> set (observed_since ?s1 (step default_options ?s1 ?done))"
    unfolding s1 example_completed_stream
    by (simp add: example_dropped_stream is_terminal_def observed_since_def)
  have t2: "timers (step default_options ?s1 (ConnectionError 0 True)) = []"
    unfolding s1 example_dropped_stream
    by (simp add: live_def on_error_event_def onerror_def)
  have l2: "\<exists>e. ConnectionError 0 True = ConnectionError e True \<and> live ?s1 e"
    unfolding s1 example_dropped_stream by (simp add: live_def)
  note A = turn_ends_at_its_terminal_event[OF refl refl refl refl c1 first t1, THEN conjunct1,
             THEN spec, THEN mp, OF g1, THEN conjunct1]
  note B = turn_ends_at_its_terminal_event[OF refl refl refl refl c2 first t2, THEN conjunct2,
             THEN mp, OF disjI2, OF l2, THEN conjunct2, THEN conjunct1]
  have o1: "observed_since ?s0 ?s1 =
            [OnMessageChunk 0 \<lparr>content = ''ab'', is_final = False\<rparr>]"
    unfolding s1 example_dropped_stream by (simp add: observed_since_def s0)
  have r1: "run default_options
        ([CallConnect ''s1'' ''q'', Open 0,
          Chunk 0 (Some \<lparr>content = ''ab'', is_final = False\<rparr>), ?done] @ ?post) =
        foldl (step default_options) (step default_options ?s1 ?done) ?post"
    by (simp only: run_def foldl.simps foldl_append append.simps)
  have r2: "run default_options
        ([CallConnect ''s1'' ''q'', Open 0,
          Chunk 0 (Some \<lparr>content = ''ab'', is_final = False\<rparr>), ConnectionError 0 True] @ ?post') =
        foldl (step default_options) (step default_options ?s1 (ConnectionError 0 True)) ?post'"
    by (simp only: run_def foldl.simps foldl_append append.simps)
  note A' = A[unfolded o1 append.simps]
  show ?thesis
    by (simp only: r1 r2) (rule conjI[OF A' B])
qed

text \<open>
  The claim as written promises exactly one terminal event in every turn. A turn whose
  connection the browser gives up before the server has sent one ends with none: the hook
  is idle and only the chunk has been delivered.
\<close>

theorem exactly_one_terminal_counterexample:
  "\<not> exactly_one_terminal
       (called
          (run default_options
             [CallConnect ''s1'' ''q'', Open 0,
              Chunk 0 (Some \<lparr>content = ''ab'', is_final = False\<rparr>),
              ConnectionError 0 True])) \<and>
   idle
     (run default_options
        [CallConnect ''s1'' ''q'', Open 0,
         Chunk 0 (Some \<lparr>content = ''ab'', is_final = False\<rparr>),
         ConnectionError 0 True])"
  by (simp add: exactly_one_terminal_def idle_def run_def initial_def connect_def disconnect_def
        live_def on_open_def on_message_chunk_def on_error_event_def onerror_def
        is_terminal_def Let_def)

text \<open>
  The proviso on pending timeouts is needed. The \<open>message_complete\<close> handler closes the
  EventSource but does not clear \<open>reconnectTimeoutRef\<close>, as \<open>disconnect\<close> does; a timeout set
  by an earlier connection error of the same turn then still fires, opens the stream again,
  and the component sees the answer a second time.
\<close>

lemma stale_timeout_repeats_the_stream:
  "called
     (run default_options
        [CallConnect ''s1'' ''q'', Open 0, ConnectionError 0 False, Open 0,
         Complete 0 (Some \<lparr>message_id = 7, mc_sequence = 1, total_charts = 0\<rparr>),
         Timeout 1, Open 1,
         Chunk 1 (Some \<lparr>content = ''ab'', is_final = False\<rparr>),
         Complete 1 (Some \<lparr>message_id = 8, mc_sequence = 2, total_charts = 0\<rparr>)]) =
     [OnConnectionError 0,
      OnMessageComplete 0 \<lparr>message_id = 7, mc_sequence = 1, total_charts = 0\<rparr>,
      OnMessageChunk 1 \<lparr>content = ''ab'', is_final = False\<rparr>,
      OnMessageComplete 1 \<lparr>message_id = 8, mc_sequence = 2, total_charts = 0\<rparr>]"
  by (simp add: run_def initial_def default_options_def connect_def disconnect_def
        clearTimeout_def close_def live_def on_open_def on_message_chunk_def
        on_message_complete_def on_error_event_def onerror_def Let_def)

section \<open>Properties of the turn engine\<close>

lemma emit_fields [simp]:
  "progress (emit ev t) = progress t"
  "client_gone (emit ev t) = client_gone t"
  "parts (emit ev t) = parts t"
  "intents (emit ev t) = intents t"
  "admissions (emit ev t) = admissions t"
  "settled (emit ev t) = settled t"
  "committed (emit ev t) = committed t"
  "out (emit ev t) = (if client_gone t then out t else out t @ [ev])"
  by (simp_all add: emit_def)

lemma persist_fields [simp]:
  "progress (persist env st t) = progress t"
  "client_gone (persist env st t) = client_gone t"
  "parts (persist env st t) = parts t"
  "intents (persist env st t) = intents t"
  "admissions (persist env st t) = admissions t"
  "settled (persist env st t) = settled t"
  "out (persist env st t) = out t"
  by (simp_all add: persist_def)

lemma finish_fields [simp]:
  "progress (finish env t) = (if commit_succeeds env then COMPLETE else FAILED)"
  "client_gone (finish env t) = client_gone t"
  "parts (finish env t) = parts t"
  "intents (finish env t) = intents t"
  "admissions (finish env t) = admissions t"
  "settled (finish env t) = settled t"
  by (simp_all add: finish_def)

lemma finish_if_drained_fields [simp]:
  "client_gone (finish_if_drained env t) = client_gone t"
  "parts (finish_if_drained env t) = parts t"
  "intents (finish_if_drained env t) = intents t"
  "admissions (finish_if_drained env t) = admissions t"
  "settled (finish_if_drained env t) = settled t"
  by (simp_all add: finish_if_drained_def)

lemma running_fields [simp]:
  "running (emit ev t) = running t"
  by (simp add: running_def)

lemma turn_run_snoc [simp]:
  "turn_run env t (ins @ [x]) = turn_step env (turn_run env t ins) x"
  by (simp add: turn_run_def)

lemma turn_run_Nil [simp]: "turn_run env t [] = t"
  by (simp add: turn_run_def)

lemma turn_run_Cons: "turn_run env t (x # ins) = turn_run env (turn_step env t x) ins"
  by (simp add: turn_run_def)

lemma map_of_None_fst: "map_of xs i = None \<longleftrightarrow> i \<notin> fst ` set xs"
  by (simp add: map_of_eq_None_iff)

lemma shape_inv_step:
  assumes "shape_inv t"
  shows "shape_inv (turn_step env t x)"
proof (cases x)
  case (Delta c final)
  then show ?thesis using assms by (simp add: shape_inv_def)
next
  case (Intent kind)
  show ?thesis
  proof (cases "progress t = STREAMING")
    case False
    then show ?thesis using assms Intent by simp
  next
    case True
    show ?thesis
    proof (cases "length (intents t) < max_charts")
      case lt: True
      have "length (admissions t) = length (intents t)"
        using assms lt by (auto simp: shape_inv_def)
      then have "admissions t = map Dispatched [0..<length (intents t)]"
        using assms by (simp add: shape_inv_def)
      then show ?thesis
        using assms Intent True lt by (auto simp: shape_inv_def less_Suc_eq)
    next
      case ge: False
      have a: "admissions t = map Dispatched [0..<length (intents t)] @
                 replicate (length (admissions t) - length (intents t)) (Rejected PolicyError)"
        using assms by (simp add: shape_inv_def)
      have l: "length (intents t) \<le> length (admissions t)"
        by (subst a) simp
      have "admissions t @ [Rejected PolicyError] =
              map Dispatched [0..<length (intents t)] @
              replicate (Suc (length (admissions t)) - length (intents t)) (Rejected PolicyError)"
        using l by (subst a) (simp add: Suc_diff_le replicate_append_same)
      then show ?thesis
        using assms Intent True ge by (auto simp: shape_inv_def)
    qed
  qed
next
  case (Settled i oc)
  then show ?thesis using assms
    by (auto simp: shape_inv_def map_of_None_fst)
next
  case EndOfStream
  then show ?thesis using assms by (simp add: shape_inv_def)
next
  case (GenerationError code msg)
  then show ?thesis using assms by (simp add: shape_inv_def)
next
  case ClientDisconnected
  then show ?thesis using assms by (simp add: shape_inv_def)
next
  case HeartbeatTick
  then show ?thesis using assms by (simp add: shape_inv_def)
next
  case WatchdogExpired
  then show ?thesis using assms by (simp add: shape_inv_def)
qed

lemma shape_inv_run: "shape_inv (turn_run env (begin_turn store) ins)"
  by (induction ins rule: rev_induct) (simp_all add: shape_inv_step, simp add: shape_inv_def begin_turn_def)

lemma map_filter_append: "List.map_filter f (xs @ ys) = List.map_filter f xs @ List.map_filter f ys"
  by (simp add: List.map_filter_def)

lemma event_ordinal_chart_event [simp]: "event_ordinal (chart_event i k oc) = Some i"
  by (cases oc) (simp_all add: chart_event_def event_ordinal_def)

lemma chunk_content_chart_event [simp]: "chunk_content (chart_event i k oc) = None"
  by (cases oc) (simp_all add: chart_event_def chunk_content_def)

lemma is_terminal_chart_event [simp]: "\<not> is_terminal_event (chart_event i k oc)"
  by (cases oc) (simp_all add: chart_event_def is_terminal_event_def)

lemma event_simps [simp]:
  "event_ordinal (EvChunk c f) = None" "event_ordinal (EvComplete a b n) = None"
  "event_ordinal (EvError x y) = None" "event_ordinal EvHeartbeat = None"
  "chunk_content (EvChunk c f) = Some c" "chunk_content (EvComplete a b n) = None"
  "chunk_content (EvError x y) = None" "chunk_content EvHeartbeat = None"
  "\<not> is_terminal_event (EvChunk c f)" "is_terminal_event (EvComplete a b n)"
  "is_terminal_event (EvError x y)" "\<not> is_terminal_event EvHeartbeat"
  by (simp_all add: event_ordinal_def chunk_content_def is_terminal_event_def)

lemma out_finish:
  "out (finish env t) =
     (if client_gone t then out t
      else out t @ [if commit_succeeds env
                    then EvComplete (env_message_id env) (env_sequence env) (length (intents t))
                    else EvError ''PersistenceFailure'' ''commit failed''])"
  by (simp add: finish_def)

lemma committed_finish:
  "committed (finish env t) =
     (if commit_succeeds env then committed t @ [complete_message env t] else committed t)"
  by (simp add: finish_def persist_def complete_message_def)

lemma terminal_stuck:
  assumes "progress t = COMPLETE \<or> progress t = FAILED"
  shows "turn_step env t x = t"
  using assms by (cases x) (auto simp: running_def)

lemma terminal_stuck_run:
  assumes "progress t = COMPLETE \<or> progress t = FAILED"
  shows "turn_run env t ins = t"
  using assms by (induction ins rule: rev_induct) (simp_all add: terminal_stuck)

lemma delivery_inv_step:
  assumes "delivery_inv t"
  shows "delivery_inv (turn_step env t x)"
proof (cases x)
  case (Settled i oc)
  then show ?thesis using assms
    by (auto simp: delivery_inv_def event_ordinals_def chunk_contents_def map_filter_append List.map_filter_simps
          finish_if_drained_def out_finish)
next
  case EndOfStream
  then show ?thesis using assms
    by (auto simp: delivery_inv_def event_ordinals_def chunk_contents_def map_filter_append List.map_filter_simps
          finish_if_drained_def out_finish)
qed (use assms in \<open>auto simp: delivery_inv_def event_ordinals_def chunk_contents_def map_filter_append List.map_filter_simps\<close>)

lemma delivery_inv_run: "delivery_inv (turn_run env (begin_turn store) ins)"
  by (induction ins rule: rev_induct)
     (simp_all add: delivery_inv_step, simp add: delivery_inv_def begin_turn_def
        event_ordinals_def chunk_contents_def List.map_filter_def)

lemma artifacts_cong:
  assumes "intents t' = intents t" and "settled t' = settled t"
  shows "artifacts t' = artifacts t"
proof -
  have "artifact_at t' = artifact_at t"
    by (rule ext) (simp add: artifact_at_def assms)
  then show ?thesis by (simp add: artifacts_def assms)
qed

lemma complete_message_cong:
  assumes "intents t' = intents t" and "settled t' = settled t" and "parts t' = parts t"
  shows "complete_message env t' = complete_message env t"
  using assms artifacts_cong[OF assms(1,2)] by (simp add: complete_message_def)

lemma all_settled_cong:
  assumes "intents t' = intents t" and "settled t' = settled t"
  shows "all_settled t' = all_settled t"
  using assms by (simp add: all_settled_def)

lemma outcome_inv_finish:
  assumes "outcome_inv env store t" and "running t" and "all_settled t"
  shows "outcome_inv env store (finish env t)"
proof -
  have c: "committed t = store" and nt: "filter is_terminal_event (out t) = []"
    using assms(1,2) by (simp_all add: outcome_inv_def)
  have m: "complete_message env (finish env t) = complete_message env t"
    by (rule complete_message_cong) simp_all
  have a: "all_settled (finish env t) = all_settled t"
    by (rule all_settled_cong) simp_all
  show ?thesis
    unfolding outcome_inv_def
    using assms(3) c nt by (simp add: running_def m a out_finish committed_finish)
qed

lemma outcome_inv_running:
  assumes "outcome_inv env store t" and "running t" and "running t'"
    and "committed t' = committed t"
    and "filter is_terminal_event (out t') = filter is_terminal_event (out t)"
  shows "outcome_inv env store t'"
  using assms by (auto simp: outcome_inv_def running_def)

lemma outcome_inv_failed: "progress t = FAILED \<Longrightarrow> outcome_inv env store t"
  by (simp add: outcome_inv_def running_def)

lemma outcome_inv_finish_if_drained:
  assumes "outcome_inv env store t" and "running t"
  shows "outcome_inv env store (finish_if_drained env t)"
  using assms by (simp add: finish_if_drained_def outcome_inv_finish)

lemma outcome_inv_step:
  assumes "outcome_inv env store t"
  shows "outcome_inv env store (turn_step env t x)"
proof (cases "running t")
  case False
  then have "progress t = COMPLETE \<or> progress t = FAILED"
    using assms by (cases "progress t") (simp_all add: running_def outcome_inv_def)
  then show ?thesis using assms by (simp add: terminal_stuck)
next
  case True
  show ?thesis
  proof (cases x)
    case (Delta c final)
    show ?thesis
    proof (cases "progress t = STREAMING")
      case s: True
      show ?thesis
        by (rule outcome_inv_running[OF assms True]) (simp_all add: Delta s running_def)
    next
      case False
      then show ?thesis using assms Delta by simp
    qed
  next
    case (Intent kind)
    show ?thesis
    proof (cases "progress t = STREAMING")
      case s: True
      show ?thesis
        by (rule outcome_inv_running[OF assms True]) (simp_all add: Intent s running_def)
    next
      case False
      then show ?thesis using assms Intent by simp
    qed
  next
    case (Settled i oc)
    let ?t1 = "emit (chart_event i (intents t ! i) oc) (t\<lparr>settled := settled t @ [(i, oc)]\<rparr>)"
    have r1: "running ?t1" using True by (simp add: running_def)
    have "outcome_inv env store ?t1"
      by (rule outcome_inv_running[OF assms True r1]) simp_all
    then have "outcome_inv env store (finish_if_drained env ?t1)"
      using r1 by (rule outcome_inv_finish_if_drained)
    then show ?thesis using assms Settled by simp
  next
    case EndOfStream
    let ?t1 = "t\<lparr>progress := DRAINING\<rparr>"
    have r1: "running ?t1" by (simp add: running_def)
    have "outcome_inv env store ?t1"
      by (rule outcome_inv_running[OF assms True r1]) simp_all
    then have "outcome_inv env store (finish_if_drained env ?t1)"
      using r1 by (rule outcome_inv_finish_if_drained)
    then show ?thesis using assms EndOfStream by simp
  next
    case (GenerationError code msg)
    then show ?thesis using assms by (simp add: outcome_inv_failed)
  next
    case ClientDisconnected
    have "outcome_inv env store (t\<lparr>client_gone := True\<rparr>)"
      by (rule outcome_inv_running[OF assms True]) (use True in \<open>simp_all add: running_def\<close>)
    then show ?thesis using ClientDisconnected True by simp
  next
    case HeartbeatTick
    have "outcome_inv env store (emit EvHeartbeat t)"
      by (rule outcome_inv_running[OF assms True]) (use True in simp_all)
    then show ?thesis using HeartbeatTick True by simp
  next
    case WatchdogExpired
    then show ?thesis using assms True by (simp add: outcome_inv_failed)
  qed
qed

lemma outcome_inv_run: "outcome_inv env store (turn_run env (begin_turn store) ins)"
  by (induction ins rule: rev_induct)
     (simp_all add: outcome_inv_step, simp add: outcome_inv_def begin_turn_def running_def)

lemma takeWhile_snoc_all:
  "\<forall>y \<in> set xs. P y \<Longrightarrow> takeWhile P (xs @ [x]) = xs @ (if P x then [x] else [])"
  by (induction xs) auto

lemma generated_snoc_before:
  assumes "EndOfStream \<notin> set ins"
  shows "generated (ins @ [x]) =
           generated ins @ (case x of Delta c _ \<Rightarrow> [c] | _ \<Rightarrow> [])"
proof -
  have all: "\<forall>y \<in> set ins. y \<noteq> EndOfStream"
    using assms by auto
  have 1: "takeWhile (\<lambda>y. y \<noteq> EndOfStream) ins = ins"
    using all by (simp add: takeWhile_eq_all_conv)
  have 2: "takeWhile (\<lambda>y. y \<noteq> EndOfStream) (ins @ [x]) = ins @ (if x \<noteq> EndOfStream then [x] else [])"
    using all by (rule takeWhile_snoc_all)
  show ?thesis
    unfolding generated_def 1 2
    by (cases x) (simp_all add: map_filter_append List.map_filter_simps delta_content_def)
qed

lemma generated_snoc_after:
  assumes "EndOfStream \<in> set ins"
  shows "generated (ins @ [x]) = generated ins"
  using assms by (simp add: generated_def takeWhile_append1)

lemma generated_inv_step:
  assumes "generated_inv ins t" and "outcome_inv env store t"
  shows "generated_inv (ins @ [x]) (turn_step env t x)"
proof (cases "progress t")
  case STREAMING
  then have a: "EndOfStream \<notin> set ins" and b: "parts t = generated ins"
    using assms(1) by (simp_all add: generated_inv_def)
  show ?thesis
    using STREAMING b a
    by (cases x)
       (auto simp: generated_inv_def generated_snoc_before[OF a] running_def finish_if_drained_def)
next
  case DRAINING
  then have a: "EndOfStream \<in> set ins" and b: "parts t = generated ins"
    using assms(1) by (simp_all add: generated_inv_def)
  show ?thesis
    using DRAINING b a
    by (cases x)
       (auto simp: generated_inv_def generated_snoc_after[OF a] running_def finish_if_drained_def)
next
  case COMPLETE
  then have a: "EndOfStream \<in> set ins" and b: "parts t = generated ins"
    using assms(1) by (simp_all add: generated_inv_def)
  show ?thesis
    using COMPLETE a b by (simp add: terminal_stuck generated_inv_def generated_snoc_after[OF a])
next
  case FAILED
  then show ?thesis by (simp add: terminal_stuck generated_inv_def)
next
  case CANCELLED
  then show ?thesis using assms(2) by (simp add: outcome_inv_def)
qed

lemma generated_inv_run: "generated_inv ins (turn_run env (begin_turn store) ins)"
proof (induction ins rule: rev_induct)
  case Nil
  show ?case by (simp add: generated_inv_def begin_turn_def generated_def List.map_filter_simps)
next
  case (snoc x ins)
  show ?case
    using generated_inv_step[OF snoc outcome_inv_run] by simp
qed

lemma all_settled_iff:
  "all_settled t \<longleftrightarrow> (\<forall>i < length (intents t). i \<in> fst ` set (settled t))"
  by (auto simp: all_settled_def list_all_iff map_of_eq_None_iff)

text \<open>
  Claim C2. A turn whose stream reaches \<open>COMPLETE\<close> has dispatched N chart intents, N at
  most five. Its one terminal event, the last of the stream, is \<open>complete\<close> with
  \<open>total_charts = N\<close>, and the \<open>chart_ready\<close> and omitted events of the stream carry every
  ordinal below N exactly once, in whatever order the chart calls settled.
\<close>

theorem complete_counts_every_chart_once:
  assumes "t = turn_run env (begin_turn store) ins" and "state t = COMPLETE"
  shows "filter is_terminal_event (out t) =
           [EvComplete (env_message_id env) (env_sequence env) (length (intents t))] \<and>
         last (out t) = EvComplete (env_message_id env) (env_sequence env) (length (intents t)) \<and>
         length (intents t) \<le> max_charts \<and>
         distinct (event_ordinals (out t)) \<and>
         set (event_ordinals (out t)) = {0..<length (intents t)}"
proof -
  have g: "\<not> client_gone t" and c: "progress t = COMPLETE"
    using assms(2) by (auto simp: state_def split: if_splits)
  have o: "outcome_inv env store t" and d: "delivery_inv t" and sh: "shape_inv t"
    unfolding assms(1) by (rule outcome_inv_run delivery_inv_run shape_inv_run)+
  have ords: "event_ordinals (out t) = map fst (settled t)"
    using d g by (simp add: delivery_inv_def)
  have "set (map fst (settled t)) = {0..<length (intents t)}"
    using o c sh by (auto simp: outcome_inv_def all_settled_iff shape_inv_def)
  then show ?thesis
    using o c g sh ords by (simp add: outcome_inv_def shape_inv_def)
qed

lemma detected_snoc_before:
  assumes "\<forall>y \<in> set ins. \<not> ends_generation y"
  shows "detected (ins @ [x]) =
           detected ins @ (if ends_generation x then [] else (case x of Intent k \<Rightarrow> [k] | _ \<Rightarrow> []))"
proof -
  have 1: "takeWhile (\<lambda>y. \<not> ends_generation y) ins = ins"
    using assms by (simp add: takeWhile_eq_all_conv)
  have 2: "takeWhile (\<lambda>y. \<not> ends_generation y) (ins @ [x]) =
             ins @ (if \<not> ends_generation x then [x] else [])"
    using assms by (rule takeWhile_snoc_all)
  show ?thesis
    unfolding detected_def 1 2
    by (cases x) (simp_all add: map_filter_append List.map_filter_simps intent_kind_def)
qed

lemma detected_snoc_after:
  assumes "\<exists>y \<in> set ins. ends_generation y"
  shows "detected (ins @ [x]) = detected ins"
  using assms by (auto simp: detected_def takeWhile_append1)

lemma detected_inv_step:
  assumes "detected_inv ins t" and "outcome_inv env store t"
  shows "detected_inv (ins @ [x]) (turn_step env t x)"
proof (cases "progress t = STREAMING")
  case True
  then have a: "\<forall>y \<in> set ins. \<not> ends_generation y"
    using assms(1) by (simp add: detected_inv_def)
  have i: "intents t = take max_charts (detected ins)"
    and l: "length (admissions t) = length (detected ins)"
    using assms(1) by (simp_all add: detected_inv_def)
  show ?thesis
  proof (cases x)
    case (Intent kind)
    show ?thesis
    proof (cases "length (intents t) < max_charts")
      case lt: True
      then have "length (detected ins) < max_charts" using i by simp
      then show ?thesis
        using True a i l lt Intent
        by (simp add: detected_inv_def detected_snoc_before[OF a] ends_generation_def
              is_failure_input_def)
    next
      case ge: False
      then have "max_charts \<le> length (detected ins)" using i by simp
      then show ?thesis
        using True a i l ge Intent
        by (simp add: detected_inv_def detected_snoc_before[OF a] ends_generation_def
              is_failure_input_def)
    qed
  qed (use True a i l in \<open>auto simp: detected_inv_def detected_snoc_before[OF a] ends_generation_def
         is_failure_input_def running_def finish_if_drained_def\<close>)
next
  case False
  then have a: "\<exists>y \<in> set ins. ends_generation y"
    using assms(1) by (simp add: detected_inv_def)
  have "progress (turn_step env t x) \<noteq> STREAMING"
    using False by (cases x) (auto simp: finish_if_drained_def)
  moreover have "intents (turn_step env t x) = intents t"
    "admissions (turn_step env t x) = admissions t"
    using False by (cases x; simp)+
  ultimately show ?thesis
    using assms(1) a by (auto simp: detected_inv_def detected_snoc_after[OF a])
qed

lemma detected_inv_run: "detected_inv ins (turn_run env (begin_turn store) ins)"
proof (induction ins rule: rev_induct)
  case Nil
  show ?case by (simp add: detected_inv_def begin_turn_def detected_def List.map_filter_simps)
next
  case (snoc x ins)
  show ?case
    using detected_inv_step[OF snoc outcome_inv_run] by simp
qed

text \<open>
  The cap on chart intents in this model of the turn engine: of the n intents detected while
  the generation runs, the first five are dispatched under the ordinals 0 to 4 and each of the
  other n - 5 has an admission record of its own, a rejection with a policy error.
\<close>

theorem excess_intents_are_rejected:
  assumes "t = turn_run env (begin_turn store) ins" and "n = length (detected ins)"
  shows "intents t = take max_charts (detected ins) \<and>
         admissions t = map Dispatched [0..<min n max_charts] @
                        replicate (n - max_charts) (Rejected PolicyError)"
proof -
  have d: "detected_inv ins t" and sh: "shape_inv t"
    unfolding assms(1) by (rule detected_inv_run shape_inv_run)+
  have i: "intents t = take max_charts (detected ins)"
    and l: "length (admissions t) = n"
    using d assms(2) by (simp_all add: detected_inv_def)
  have li: "length (intents t) = min n max_charts"
    using i assms(2) by (simp add: min.commute)
  have "n - length (intents t) = n - max_charts"
    using li by (simp add: min_def)
  then show ?thesis
    using sh i l li by (simp add: shape_inv_def)
qed

lemma turn_run_append: "turn_run env t (xs @ ys) = turn_run env (turn_run env t xs) ys"
  by (simp add: turn_run_def)

lemma failure_cause_step:
  assumes "progress t \<noteq> FAILED" and "progress (turn_step env t x) = FAILED"
  shows "is_failure_input x \<or> \<not> commit_succeeds env"
  using assms
  by (cases x) (auto simp: is_failure_input_def finish_if_drained_def split: if_splits)

lemma failure_cause_run:
  assumes "progress t \<noteq> FAILED" and "progress (turn_run env t ins) = FAILED"
  shows "(\<exists>x \<in> set ins. is_failure_input x) \<or> \<not> commit_succeeds env"
  using assms
proof (induction ins rule: rev_induct)
  case Nil
  then show ?case by simp
next
  case (snoc x ins)
  show ?case
  proof (cases "progress (turn_run env t ins) = FAILED")
    case True
    then show ?thesis using snoc by auto
  next
    case False
    then show ?thesis
      using failure_cause_step[OF False, of env x] snoc.prems by auto
  qed
qed

lemma settled_stable_step:
  assumes "map_of (settled t) i = Some oc" and "i < length (intents t)"
  shows "map_of (settled (turn_step env t x)) i = Some oc \<and>
         i < length (intents (turn_step env t x)) \<and>
         intents (turn_step env t x) ! i = intents t ! i"
  using assms by (cases x) (auto simp: nth_append)

lemma settled_stable_run:
  assumes "map_of (settled t) i = Some oc" and "i < length (intents t)"
  shows "map_of (settled (turn_run env t ins)) i = Some oc \<and>
         i < length (intents (turn_run env t ins)) \<and>
         intents (turn_run env t ins) ! i = intents t ! i"
  using assms
proof (induction ins rule: rev_induct)
  case Nil
  then show ?case by simp
next
  case (snoc x ins)
  then have a: "map_of (settled (turn_run env t ins)) i = Some oc"
    and b: "i < length (intents (turn_run env t ins))"
    and c: "intents (turn_run env t ins) ! i = intents t ! i"
    by simp_all
  show ?case
    using settled_stable_step[OF a b, of env x] c by simp
qed

lemma artifact_in_artifacts:
  assumes "i < length (intents t)" and "map_of (settled t) i = Some oc"
  shows "\<lparr>art_ordinal = i, art_kind = intents t ! i, art_outcome = oc\<rparr> \<in> set (artifacts t)"
proof -
  have "artifact_at t i = Some \<lparr>art_ordinal = i, art_kind = intents t ! i, art_outcome = oc\<rparr>"
    using assms(2) by (simp add: artifact_at_def)
  then show ?thesis
    using assms(1) by (force simp: artifacts_def List.map_filter_def)
qed

text \<open>
  Claim C6. When the chart call of a dispatched, unsettled ordinal times out or fails in a
  running turn, the result of that ordinal becomes \<open>omitted\<close> with the reason and a connected
  client is sent the omitted event of that ordinal. The turn goes on: it can only end
  \<open>FAILED\<close> through a later generation error, the watchdog or a commit that keeps failing,
  and when it ends \<open>COMPLETE\<close> the committed message holds the omitted artifact.
\<close>

theorem chart_failure_is_absorbed:
  assumes "t = turn_run env (begin_turn store) ins" and "running t"
    and "i < length (intents t)" and "map_of (settled t) i = None"
  shows "map_of (settled (turn_step env t (Settled i (Omitted reason)))) i = Some (Omitted reason) \<and>
         (\<not> client_gone t \<longrightarrow>
            EvChartOmitted i reason \<in> set (out (turn_step env t (Settled i (Omitted reason))))) \<and>
         (\<forall>rest. progress (turn_run env t (Settled i (Omitted reason) # rest)) = FAILED \<longrightarrow>
            (\<exists>x \<in> set rest. is_failure_input x) \<or> \<not> commit_succeeds env) \<and>
         (\<forall>rest. progress (turn_run env t (Settled i (Omitted reason) # rest)) = COMPLETE \<longrightarrow>
            \<lparr>art_ordinal = i, art_kind = intents t ! i, art_outcome = Omitted reason\<rparr>
              \<in> set (p_charts (last (committed (turn_run env t (Settled i (Omitted reason) # rest))))))"
proof -
  let ?x = "Settled i (Omitted reason)"
  let ?t1 = "turn_step env t ?x"
  have nf: "progress t \<noteq> FAILED" using assms(2) by (auto simp: running_def)
  have s1: "map_of (settled ?t1) i = Some (Omitted reason)"
    using assms(2,3,4) by (simp add: map_add_def split: option.splits)
  have i1: "i < length (intents ?t1)" and k1: "intents ?t1 ! i = intents t ! i"
    using assms(2,3,4) by simp_all
  have e: "\<not> client_gone t \<longrightarrow> EvChartOmitted i reason \<in> set (out ?t1)"
    using assms(2,3,4)
    by (auto simp: finish_if_drained_def out_finish chart_event_def)
  have f: "(\<exists>x \<in> set rest. is_failure_input x) \<or> \<not> commit_succeeds env"
    if "progress (turn_run env t (?x # rest)) = FAILED" for rest
    using failure_cause_run[OF nf that] by (auto simp: is_failure_input_def)
  have c: "\<lparr>art_ordinal = i, art_kind = intents t ! i, art_outcome = Omitted reason\<rparr>
              \<in> set (p_charts (last (committed (turn_run env t (?x # rest)))))"
    if p: "progress (turn_run env t (?x # rest)) = COMPLETE" for rest
  proof -
    let ?t2 = "turn_run env t (?x # rest)"
    have t2: "?t2 = turn_run env ?t1 rest" by (simp add: turn_run_Cons)
    have st: "map_of (settled ?t2) i = Some (Omitted reason)" "i < length (intents ?t2)"
      "intents ?t2 ! i = intents t ! i"
      using settled_stable_run[OF s1 i1, of env rest] k1 unfolding t2 by simp_all
    have "?t2 = turn_run env (begin_turn store) (ins @ ?x # rest)"
      by (simp add: assms(1) turn_run_append)
    then have "outcome_inv env store ?t2"
      using outcome_inv_run[of env store "ins @ ?x # rest"] by simp
    then have "committed ?t2 = store @ [complete_message env ?t2]"
      using p by (simp add: outcome_inv_def)
    then have "p_charts (last (committed ?t2)) = artifacts ?t2"
      by (simp add: complete_message_def)
    then show ?thesis
      using artifact_in_artifacts[OF st(2) st(1)] st(3) by simp
  qed
  show ?thesis using s1 e f c by blast
qed

lemma hook_accumulates:
  assumes "live s e"
  shows "accumulatedContent (foldl (step opts) s (wire_chunks e evs)) =
           accumulatedContent s @ concat (chunk_contents evs) \<and>
         live (foldl (step opts) s (wire_chunks e evs)) e"
  using assms
proof (induction evs arbitrary: s)
  case Nil
  then show ?case by (simp add: wire_chunks_def chunk_contents_def List.map_filter_simps)
next
  case (Cons ev evs)
  show ?case
  proof (cases ev)
    case (EvChunk c final)
    let ?s1 = "step opts s (Chunk e (Some \<lparr>content = c, is_final = final\<rparr>))"
    have l1: "live ?s1 e" and a1: "accumulatedContent ?s1 = accumulatedContent s @ c"
      using Cons.prems by (simp_all add: on_message_chunk_def live_def)
    show ?thesis
      using Cons.IH[OF l1] a1 EvChunk
      by (simp add: wire_chunks_def chunk_contents_def List.map_filter_simps wire_chunk_def
            chunk_content_def)
  qed (use Cons in \<open>simp_all add: wire_chunks_def chunk_contents_def List.map_filter_simps
          wire_chunk_def chunk_content_def\<close>)
qed

lemma hook_receives_chunks:
  "accumulatedContent (run opts (CallConnect sessionId query # Open 0 # wire_chunks 0 evs)) =
     concat (chunk_contents evs)"
proof -
  let ?s0 = "step opts (step opts initial (CallConnect sessionId query)) (Open 0)"
  have "live ?s0 0" and "accumulatedContent ?s0 = []"
    by (simp_all add: initial_def connect_def disconnect_def live_def on_open_def Let_def)
  then show ?thesis
    using hook_accumulates[of ?s0 0 opts evs] by (simp add: run_def)
qed

lemma map_filter_all:
  "\<forall>x \<in> set xs. \<exists>y. f x = Some y \<and> g y = x \<Longrightarrow> map g (List.map_filter f xs) = xs"
  by (induction xs) (auto simp: List.map_filter_simps)

lemma artifact_ordinals:
  assumes "all_settled t"
  shows "map art_ordinal (artifacts t) = [0..<length (intents t)]"
  unfolding artifacts_def
proof (rule map_filter_all, rule ballI)
  fix i assume "i \<in> set [0..<length (intents t)]"
  then have "map_of (settled t) i \<noteq> None"
    using assms by (simp add: all_settled_def list_all_iff)
  then show "\<exists>y. artifact_at t i = Some y \<and> art_ordinal y = i"
    by (auto simp: artifact_at_def)
qed

lemma committed_prefix:
  assumes "t = turn_run env (begin_turn store) ins" and "progress t = COMPLETE"
  shows "committed (turn_run env (begin_turn store) (take n ins)) = store \<or>
         committed (turn_run env (begin_turn store) (take n ins)) = committed t"
proof -
  let ?tn = "turn_run env (begin_turn store) (take n ins)"
  have t: "t = turn_run env ?tn (drop n ins)"
    using assms(1) turn_run_append[of env "begin_turn store" "take n ins" "drop n ins"] by simp
  have o: "outcome_inv env store ?tn" by (rule outcome_inv_run)
  show ?thesis
  proof (cases "running ?tn")
    case True
    then show ?thesis using o by (simp add: outcome_inv_def)
  next
    case False
    then have "progress ?tn = COMPLETE \<or> progress ?tn = FAILED"
      using o by (cases "progress ?tn") (simp_all add: running_def outcome_inv_def)
    then have "t = ?tn" using t terminal_stuck_run by simp
    then show ?thesis by simp
  qed
qed

text \<open>
  Claim C4. For a turn whose stream reaches \<open>COMPLETE\<close>: the chunk events are the generated
  deltas in generation order; the committed message has as content the concatenation of the
  chunk events in emission order, status \<open>complete\<close>, and one chart artifact per dispatched
  ordinal, omitted ones included; at every moment of the turn readers see either the store as
  it was or the store with the message and all its artifacts; and the useSSE hook, fed the
  chunk events, has accumulated the same content.
\<close>

theorem complete_turn_persists_streamed_content:
  assumes "t = turn_run env (begin_turn store) ins" and "state t = COMPLETE"
  shows "committed t =
           store @ [\<lparr>p_role = assistant, p_content = concat (chunk_contents (out t)),
                     p_sequence = env_sequence env, p_status = StatusComplete,
                     p_charts = artifacts t\<rparr>] \<and>
         chunk_contents (out t) = generated ins \<and>
         map art_ordinal (artifacts t) = [0..<length (intents t)] \<and>
         (\<forall>n. committed (turn_run env (begin_turn store) (take n ins)) = store \<or>
              committed (turn_run env (begin_turn store) (take n ins)) = committed t) \<and>
         accumulatedContent
           (run opts (CallConnect sessionId query # Open 0 # wire_chunks 0 (out t))) =
           p_content (last (committed t))"
proof -
  have g: "\<not> client_gone t" and c: "progress t = COMPLETE"
    using assms(2) by (auto simp: state_def split: if_splits)
  have o: "outcome_inv env store t" and d: "delivery_inv t" and gi: "generated_inv ins t"
    unfolding assms(1) by (rule outcome_inv_run delivery_inv_run generated_inv_run)+
  have ch: "chunk_contents (out t) = parts t"
    using d g by (simp add: delivery_inv_def)
  have cm: "committed t = store @ [complete_message env t]" and al: "all_settled t"
    using o c by (simp_all add: outcome_inv_def)
  have ge: "parts t = generated ins"
    using gi c by (simp add: generated_inv_def)
  have 1: "committed t =
           store @ [\<lparr>p_role = assistant, p_content = concat (chunk_contents (out t)),
                     p_sequence = env_sequence env, p_status = StatusComplete,
                     p_charts = artifacts t\<rparr>]"
    using cm ch by (simp add: complete_message_def)
  have 5: "accumulatedContent
           (run opts (CallConnect sessionId query # Open 0 # wire_chunks 0 (out t))) =
           p_content (last (committed t))"
    by (simp add: hook_receives_chunks 1)
  show ?thesis
    using 1 ch ge artifact_ordinals[OF al] committed_prefix[OF assms(1) c] 5 by simp
qed

lemma same_work_finish:
  assumes "same_work t1 t2"
  shows "same_work (finish env t1) (finish env t2)"
proof -
  have "artifacts t1 = artifacts t2"
    by (rule artifacts_cong) (use assms in \<open>simp_all add: same_work_def\<close>)
  then show ?thesis
    using assms by (simp add: same_work_def finish_def persist_def)
qed

lemma same_work_finish_if_drained:
  assumes "same_work t1 t2"
  shows "same_work (finish_if_drained env t1) (finish_if_drained env t2)"
proof -
  have "all_settled t1 = all_settled t2"
    by (rule all_settled_cong) (use assms in \<open>simp_all add: same_work_def\<close>)
  then show ?thesis
    using assms same_work_finish[OF assms, of env]
    by (auto simp: finish_if_drained_def same_work_def)
qed

lemma same_work_step:
  assumes "same_work t1 t2"
  shows "same_work (turn_step env t1 x) (turn_step env t2 x)"
proof (cases x)
  case (Settled i oc)
  let ?u1 = "emit (chart_event i (intents t1 ! i) oc) (t1\<lparr>settled := settled t1 @ [(i, oc)]\<rparr>)"
  let ?u2 = "emit (chart_event i (intents t2 ! i) oc) (t2\<lparr>settled := settled t2 @ [(i, oc)]\<rparr>)"
  have "same_work ?u1 ?u2" using assms by (simp add: same_work_def)
  then have "same_work (finish_if_drained env ?u1) (finish_if_drained env ?u2)"
    by (rule same_work_finish_if_drained)
  then show ?thesis using assms Settled by (auto simp: same_work_def running_def)
next
  case EndOfStream
  have "same_work (t1\<lparr>progress := DRAINING\<rparr>) (t2\<lparr>progress := DRAINING\<rparr>)"
    using assms by (simp add: same_work_def)
  then have "same_work (finish_if_drained env (t1\<lparr>progress := DRAINING\<rparr>))
                       (finish_if_drained env (t2\<lparr>progress := DRAINING\<rparr>))"
    by (rule same_work_finish_if_drained)
  then show ?thesis using assms EndOfStream by (auto simp: same_work_def)
next
  case (GenerationError code msg)
  have "artifacts t1 = artifacts t2"
    by (rule artifacts_cong) (use assms in \<open>simp_all add: same_work_def\<close>)
  then show ?thesis using assms GenerationError by (simp add: same_work_def persist_def)
qed (use assms in \<open>auto simp: same_work_def running_def\<close>)

lemma same_work_run:
  assumes "same_work t1 t2"
  shows "same_work (turn_run env t1 ins) (turn_run env t2 ins)"
  using assms by (induction ins rule: rev_induct) (simp_all add: same_work_step)

lemma gone_step:
  assumes "client_gone t"
  shows "client_gone (turn_step env t x) \<and> out (turn_step env t x) = out t"
  using assms by (cases x) (simp_all add: finish_if_drained_def out_finish)

lemma gone_run:
  assumes "client_gone t"
  shows "client_gone (turn_run env t ins) \<and> out (turn_run env t ins) = out t"
  using assms
proof (induction ins rule: rev_induct)
  case Nil
  then show ?case by simp
next
  case (snoc x ins)
  then show ?case using gone_step[of "turn_run env t ins" env x] by simp
qed

lemma disconnect_does_not_abort:
  assumes "tp = turn_run env (begin_turn store) pre"
    and "t1 = turn_run env (begin_turn store) (pre @ ClientDisconnected # post)"
    and "t2 = turn_run env (begin_turn store) (pre @ post)"
  shows "same_work t1 t2"
    and "running tp \<Longrightarrow> state t1 = CANCELLED \<and> out t1 = out tp"
    and "progress t1 = COMPLETE \<Longrightarrow>
           committed t1 =
             store @ [\<lparr>p_role = assistant, p_content = concat (generated (pre @ post)),
                       p_sequence = env_sequence env, p_status = StatusComplete,
                       p_charts = artifacts t1\<rparr>] \<and>
           map art_ordinal (artifacts t1) = [0..<length (intents t1)]"
proof -
  let ?td = "turn_step env tp ClientDisconnected"
  have t1: "t1 = turn_run env ?td post"
    by (simp add: assms(1,2) turn_run_append turn_run_Cons)
  have t2: "t2 = turn_run env tp post"
    by (simp add: assms(1,3) turn_run_append)
  have "same_work ?td tp" by (simp add: same_work_def)
  then show sw: "same_work t1 t2"
    unfolding t1 t2 by (rule same_work_run)
  {
    assume r: "running tp"
    then have "client_gone ?td" and "out ?td = out tp" by simp_all
    then show "state t1 = CANCELLED \<and> out t1 = out tp"
      using gone_run[of ?td env post] by (simp add: t1 state_def)
  }
  {
    assume c: "progress t1 = COMPLETE"
    have o: "outcome_inv env store t1"
      unfolding assms(2) by (rule outcome_inv_run)
    have gi: "generated_inv (pre @ post) t2"
      unfolding assms(3) by (rule generated_inv_run)
    have "parts t1 = generated (pre @ post)"
      using sw c gi by (simp add: same_work_def generated_inv_def)
    moreover have "committed t1 = store @ [complete_message env t1]" and "all_settled t1"
      using o c by (simp_all add: outcome_inv_def)
    ultimately show "committed t1 =
             store @ [\<lparr>p_role = assistant, p_content = concat (generated (pre @ post)),
                       p_sequence = env_sequence env, p_status = StatusComplete,
                       p_charts = artifacts t1\<rparr>] \<and>
           map art_ordinal (artifacts t1) = [0..<length (intents t1)]"
      using artifact_ordinals by (simp add: complete_message_def)
  }
qed

subsection \<open>Disconnection and reconnection\<close>

lemma connect_fields:
  "sources (connect sid q s) = sources s @ [(sid, q)]"
  "eventSourceRef (connect sid q s) = Some (length (sources s))"
  "readyState (connect sid q s) (length (sources s)) = CONNECTING"
  "accumulatedContent (connect sid q s) = []"
  "called (connect sid q s) = called s"
  by (simp_all add: connect_def Let_def)

lemma sync_streaming_fields [simp]:
  "hook (sync_streaming c) = hook c" "requests (sync_streaming c) = requests c"
  by (simp_all add: sync_streaming_def)

lemma chat_sse_silent:
  assumes "called (step opts (hook c) ev) = called (hook c) @ cs"
    and "\<forall>cb \<in> set cs. \<exists>e. cb = OnConnectionError e"
  shows "hook (chat_sse opts sessionId now ev c) = step opts (hook c) ev \<and>
         requests (chat_sse opts sessionId now ev c) = requests c"
proof -
  have "foldl (deliver sessionId now) c0 cs = c0" for c0
    using assms(2) by (induction cs arbitrary: c0) (auto simp: deliver_def)
  then show ?thesis
    by (simp add: chat_sse_def Let_def assms(1))
qed

lemma mount_reads_history:
  assumes "\<not> temp_session sessionId"
  shows "requests (mount sessionId c) = requests c @ [ListMessages sessionId] \<and>
         hook (mount sessionId c) = hook c"
  using assms by (simp add: mount_def loadMessages_def)

lemma pending_timer_unique:
  assumes "distinct (map fst ts)" and "(t, v) \<in> set ts"
  shows "filter (\<lambda>x. fst x = t) ts = [(t, v)]"
  using assms by (induction ts) (auto simp: filter_empty_conv rev_image_eqI)

lemma timeout_reopens_stream:
  assumes "s = run opts evs" and "(t, sq) \<in> set (timers s)"
  shows "sources (step opts s (Timeout t)) = sources s @ [sq] \<and>
         eventSourceRef (step opts s (Timeout t)) = Some (length (sources s)) \<and>
         live (step opts s (Timeout t)) (length (sources s)) \<and>
         accumulatedContent (step opts s (Timeout t)) = [] \<and>
         called (step opts s (Timeout t)) = called s"
proof -
  have "distinct (map fst (timers s))"
    using timer_inv_run[of opts evs] assms(1) by (simp add: timer_inv_def)
  then have f: "filter (\<lambda>x. fst x = t) (timers s) = [(t, sq)]"
    using assms(2) by (rule pending_timer_unique)
  obtain sid q where sq: "sq = (sid, q)" by (cases sq)
  have st: "step opts s (Timeout t) = connect sid q (clearTimeout t s)"
    by (simp add: f sq)
  have c1: "sources (clearTimeout t s) = sources s" and c2: "called (clearTimeout t s) = called s"
    by (simp_all add: clearTimeout_def)
  have c3: "readyState (connect sid q (clearTimeout t s)) (length (sources s)) = CONNECTING"
    using connect_fields(3)[of sid q "clearTimeout t s"] by (simp only: c1)
  show ?thesis
    unfolding st by (simp add: connect_fields c1 c2 c3 sq live_def)
qed

lemma drop_sets_timeout:
  assumes "live s e" and "reconnectAttemptsRef s < maxReconnectAttempts opts"
  shows "timers (step opts s (ConnectionError e False)) = timers s @ [(next_timer s, sources s ! e)] \<and>
         sources (step opts s (ConnectionError e False)) = sources s \<and>
         called (step opts s (ConnectionError e False)) = called s @ [OnConnectionError e]"
  using assms by (simp add: onerror_def on_error_event_def Let_def)

lemma fatal_drop_stops:
  assumes "s = run opts evs" and "live s e"
  shows "sources (step opts s (ConnectionError e True)) = sources s \<and>
         timers (step opts s (ConnectionError e True)) = timers s \<and>
         called (step opts s (ConnectionError e True)) = called s \<and>
         (\<forall>x. \<not> live (step opts s (ConnectionError e True)) x)"
proof -
  have inv: "hook_inv s" using assms(1) by (simp add: hook_inv_run)
  have r: "eventSourceRef s = Some e" using inv assms(2) by (rule live_ref)
  have st: "step opts s (ConnectionError e True) =
      s\<lparr>readyState := (readyState s)(e := CLOSED), isConnected := False, isConnecting := False\<rparr>"
    using assms(2) by (simp add: on_error_event_def onerror_def)
  have "readyState (step opts s (ConnectionError e True)) x = CLOSED" for x
    using only_ref_live[OF inv r, of x] unfolding st by (cases "x = e") (simp_all add: live_def)
  then show ?thesis
    unfolding st by (simp add: live_def)
qed


lemma mount_temp_session:
  assumes "temp_session sessionId"
  shows "requests (mount sessionId c) = requests c"
  using assms by (simp add: mount_def loadMessages_def)

lemma mount_hook: "hook (mount sessionId c) = hook c"
  by (simp add: mount_def loadMessages_def)

lemma chat_drop_sets_timeout:
  assumes "hook c = run opts evs" and "live (hook c) e"
    and "reconnectAttemptsRef (hook c) < maxReconnectAttempts opts"
    and "c1 = chat_sse opts sessionId now (ConnectionError e False) c"
  shows "timers (hook c1) = timers (hook c) @ [(next_timer (hook c), sources (hook c) ! e)] \<and>
         sources (hook c1) = sources (hook c) \<and>
         hook c1 = run opts (evs @ [ConnectionError e False]) \<and>
         requests c1 = requests c"
proof -
  note d = drop_sets_timeout[OF assms(2,3)]
  have "\<forall>cb \<in> set [OnConnectionError e]. \<exists>e. cb = OnConnectionError e" by simp
  note h = chat_sse_silent[OF d[THEN conjunct2, THEN conjunct2] this, of sessionId now]
  have r: "run opts (evs @ [ConnectionError e False]) = step opts (hook c) (ConnectionError e False)"
    by (simp add: run_def assms(1))
  show ?thesis
    unfolding assms(4) r using h d by simp
qed

lemma chat_timeout_reopens_stream:
  assumes "hook c = run opts evs" and "(t, sq) \<in> set (timers (hook c))"
    and "c3 = chat_sse opts sessionId now (Timeout t) c"
  shows "sources (hook c3) = sources (hook c) @ [sq] \<and>
         eventSourceRef (hook c3) = Some (length (sources (hook c))) \<and>
         live (hook c3) (length (sources (hook c))) \<and>
         accumulatedContent (hook c3) = [] \<and>
         requests c3 = requests c"
proof -
  note d = timeout_reopens_stream[OF assms(1,2)]
  have c: "called (step opts (hook c) (Timeout t)) = called (hook c) @ []"
    using d by simp
  have "\<forall>cb \<in> set []. \<exists>e. cb = OnConnectionError e" by simp
  note h = chat_sse_silent[OF c this, of sessionId now]
  show ?thesis
    unfolding assms(3) using h d by simp
qed

lemma chat_fatal_drop_stops:
  assumes "hook c = run opts evs" and "live (hook c) e"
    and "c2 = chat_sse opts sessionId now (ConnectionError e True) c"
  shows "sources (hook c2) = sources (hook c) \<and>
         timers (hook c2) = timers (hook c) \<and>
         (\<forall>x. \<not> live (hook c2) x) \<and>
         requests c2 = requests c"
proof -
  note d = fatal_drop_stops[OF assms(1,2)]
  have c: "called (step opts (hook c) (ConnectionError e True)) = called (hook c) @ []"
    using d by simp
  have "\<forall>cb \<in> set []. \<exists>e. cb = OnConnectionError e" by simp
  note h = chat_sse_silent[OF c this, of sessionId now]
  show ?thesis
    unfolding assms(3) using h d by simp
qed

text \<open>
  Claim C5, as amended. Server side (modelled from the specification): a disconnection
  before the terminal state cancels only the delivery; the turn's work and what it commits
  are what they would have been without the disconnection, nothing more is emitted, and a
  turn that completes commits its message with status \<open>complete\<close>, the full generated content
  and one artifact per dispatched ordinal. Client side (ChatContainer with its useSSE hook),
  for every state the hook can reach and whatever the component holds: a client that comes
  back by mounting the conversation sends the history request and opens no stream (for a
  temporary offline session it sends nothing); when the live connection drops while the
  browser keeps the EventSource and reconnect attempts remain, the hook sets a reconnect
  timeout for the session and query of that stream and no request is sent; whenever a pending
  reconnect timeout fires, the hook opens the stream again for that session and query and
  discards the content accumulated so far, and no request is sent; when the browser has
  closed the EventSource for good, no stream is opened, no timeout is set and no request is
  sent.
\<close>

theorem disconnected_turn_completes_and_client_comes_back:
  assumes "tp = turn_run env (begin_turn store) pre" and "running tp"
    and "t1 = turn_run env (begin_turn store) (pre @ ClientDisconnected # post)"
    and "t2 = turn_run env (begin_turn store) (pre @ post)"
    and "hook c = run opts evs" and "live (hook c) e"
    and "c1 = chat_sse opts sessionId now (ConnectionError e False) c"
    and "c2 = chat_sse opts sessionId now (ConnectionError e True) c"
    and "hook c' = run opts evs'" and "(t, sq) \<in> set (timers (hook c'))"
    and "c3 = chat_sse opts sessionId now (Timeout t) c'"
  shows "(same_work t1 t2 \<and> state t1 = CANCELLED \<and> out t1 = out tp \<and>
          (progress t1 = COMPLETE \<longrightarrow>
             committed t1 =
               store @ [\<lparr>p_role = assistant, p_content = concat (generated (pre @ post)),
                         p_sequence = env_sequence env, p_status = StatusComplete,
                         p_charts = artifacts t1\<rparr>] \<and>
             map art_ordinal (artifacts t1) = [0..<length (intents t1)])) \<and>
         ((\<not> temp_session sessionId \<longrightarrow>
             requests (mount sessionId c0) = requests c0 @ [ListMessages sessionId]) \<and>
          (temp_session sessionId \<longrightarrow> requests (mount sessionId c0) = requests c0) \<and>
          hook (mount sessionId c0) = hook c0) \<and>
         (reconnectAttemptsRef (hook c) < maxReconnectAttempts opts \<longrightarrow>
            timers (hook c1) = timers (hook c) @ [(next_timer (hook c), sources (hook c) ! e)] \<and>
            sources (hook c1) = sources (hook c) \<and>
            hook c1 = run opts (evs @ [ConnectionError e False]) \<and>
            requests c1 = requests c) \<and>
         (sources (hook c3) = sources (hook c') @ [sq] \<and>
          eventSourceRef (hook c3) = Some (length (sources (hook c'))) \<and>
          live (hook c3) (length (sources (hook c'))) \<and>
          accumulatedContent (hook c3) = [] \<and>
          requests c3 = requests c') \<and>
         (sources (hook c2) = sources (hook c) \<and>
          timers (hook c2) = timers (hook c) \<and>
          (\<forall>x. \<not> live (hook c2) x) \<and>
          requests c2 = requests c)"
proof (intro conjI impI)
  show "same_work t1 t2" by (rule disconnect_does_not_abort(1)[OF assms(1,3,4)])
  show "state t1 = CANCELLED" "out t1 = out tp"
    using disconnect_does_not_abort(2)[OF assms(1,3,4) assms(2)] by simp_all
next
  assume "progress t1 = COMPLETE"
  note k = disconnect_does_not_abort(3)[OF assms(1,3,4) this]
  show "committed t1 =
               store @ [\<lparr>p_role = assistant, p_content = concat (generated (pre @ post)),
                         p_sequence = env_sequence env, p_status = StatusComplete,
                         p_charts = artifacts t1\<rparr>]"
    using k by (rule conjunct1)
  show "map art_ordinal (artifacts t1) = [0..<length (intents t1)]"
    using k by (rule conjunct2)
next
  assume "\<not> temp_session sessionId"
  then show "requests (mount sessionId c0) = requests c0 @ [ListMessages sessionId]"
    by (rule mount_reads_history[THEN conjunct1])
next
  assume "temp_session sessionId"
  then show "requests (mount sessionId c0) = requests c0" by (rule mount_temp_session)
next
  show "hook (mount sessionId c0) = hook c0" by (rule mount_hook)
next
  assume a: "reconnectAttemptsRef (hook c) < maxReconnectAttempts opts"
  note k = chat_drop_sets_timeout[OF assms(5,6) a assms(7)]
  show "timers (hook c1) = timers (hook c) @ [(next_timer (hook c), sources (hook c) ! e)]"
    "sources (hook c1) = sources (hook c)"
    "hook c1 = run opts (evs @ [ConnectionError e False])"
    "requests c1 = requests c"
    by (rule k[THEN conjunct1] k[THEN conjunct2, THEN conjunct1]
          k[THEN conjunct2, THEN conjunct2, THEN conjunct1]
          k[THEN conjunct2, THEN conjunct2, THEN conjunct2])+
next
  note k = chat_timeout_reopens_stream[OF assms(9,10,11)]
  show "sources (hook c3) = sources (hook c') @ [sq]"
    "eventSourceRef (hook c3) = Some (length (sources (hook c')))"
    "live (hook c3) (length (sources (hook c')))"
    "accumulatedContent (hook c3) = []"
    "requests c3 = requests c'"
    using k by simp_all
next
  note k = chat_fatal_drop_stops[OF assms(5,6,8)]
  show "sources (hook c2) = sources (hook c)"
    "timers (hook c2) = timers (hook c)"
    "\<forall>x. \<not> live (hook c2) x"
    "requests c2 = requests c"
    using k by simp_all
qed

subsection \<open>Worked turns\<close>

lemma example_turn:
  "turn_run \<lparr>env_message_id = 42, env_sequence = 1, env_commit_results = [False, True],
             env_max_commit_attempts = 3\<rparr>
     (begin_turn [])
     [Delta ''ab'' False, Intent ''line'', Intent ''bar'', Delta ''cd'' True,
      Settled 1 (Omitted ''timeout''), EndOfStream, Settled 0 (Ready ''c0'' ''{}'')] =
   \<lparr>progress = COMPLETE, client_gone = False, parts = [''ab'', ''cd''],
    intents = [''line'', ''bar''], admissions = [Dispatched 0, Dispatched 1],
    settled = [(1, Omitted ''timeout''), (0, Ready ''c0'' ''{}'')],
    out = [EvChunk ''ab'' False, EvChunk ''cd'' True, EvChartOmitted 1 ''timeout'',
           EvChartReady ''c0'' ''line'' ''{}'' 0, EvComplete 42 1 2],
    committed =
      [\<lparr>p_role = assistant, p_content = ''abcd'', p_sequence = 1, p_status = StatusComplete,
        p_charts = [\<lparr>art_ordinal = 0, art_kind = ''line'', art_outcome = Ready ''c0'' ''{}''\<rparr>,
                    \<lparr>art_ordinal = 1, art_kind = ''bar'', art_outcome = Omitted ''timeout''\<rparr>]\<rparr>]\<rparr>"
  by (simp add: turn_run_def begin_turn_def emit_def finish_if_drained_def finish_def
        persist_def commit_succeeds_def all_settled_def artifacts_def artifact_at_def
        running_def chart_event_def max_charts_def List.map_filter_def upt_rec)

lemma example_cancelled_turn:
  "turn_run \<lparr>env_message_id = 42, env_sequence = 1, env_commit_results = [False, True],
             env_max_commit_attempts = 3\<rparr>
     (begin_turn [])
     ([Delta ''ab'' False, Intent ''line''] @ ClientDisconnected #
      [Delta ''cd'' True, EndOfStream, Settled 0 (Omitted ''timeout'')]) =
   \<lparr>progress = COMPLETE, client_gone = True, parts = [''ab'', ''cd''],
    intents = [''line''], admissions = [Dispatched 0],
    settled = [(0, Omitted ''timeout'')],
    out = [EvChunk ''ab'' False],
    committed =
      [\<lparr>p_role = assistant, p_content = ''abcd'', p_sequence = 1, p_status = StatusComplete,
        p_charts = [\<lparr>art_ordinal = 0, art_kind = ''line'', art_outcome = Omitted ''timeout''\<rparr>]\<rparr>]\<rparr>"
  by (simp add: turn_run_def begin_turn_def emit_def finish_if_drained_def finish_def
        persist_def commit_succeeds_def all_settled_def artifacts_def artifact_at_def
        running_def chart_event_def max_charts_def List.map_filter_def upt_rec)

lemma example_streaming_turn:
  "turn_run \<lparr>env_message_id = 42, env_sequence = 1, env_commit_results = [False, True],
             env_max_commit_attempts = 3\<rparr>
     (begin_turn [])
     [Delta ''ab'' False, Intent ''line'', Intent ''bar''] =
   \<lparr>progress = STREAMING, client_gone = False, parts = [''ab''],
    intents = [''line'', ''bar''], admissions = [Dispatched 0, Dispatched 1],
    settled = [], out = [EvChunk ''ab'' False], committed = []\<rparr>"
  by (simp add: turn_run_def begin_turn_def emit_def max_charts_def)

theorem complete_counts_every_chart_once_witness:
  "state (turn_run \<lparr>env_message_id = 42, env_sequence = 1, env_commit_results = [False, True],
             env_max_commit_attempts = 3\<rparr>
     (begin_turn [])
     [Delta ''ab'' False, Intent ''line'', Intent ''bar'', Delta ''cd'' True,
      Settled 1 (Omitted ''timeout''), EndOfStream, Settled 0 (Ready ''c0'' ''{}'')]) = COMPLETE \<and>
   filter is_terminal_event (out (turn_run \<lparr>env_message_id = 42, env_sequence = 1, env_commit_results = [False, True],
             env_max_commit_attempts = 3\<rparr>
     (begin_turn [])
     [Delta ''ab'' False, Intent ''line'', Intent ''bar'', Delta ''cd'' True,
      Settled 1 (Omitted ''timeout''), EndOfStream, Settled 0 (Ready ''c0'' ''{}'')])) = [EvComplete 42 1 2] \<and>
   event_ordinals (out (turn_run \<lparr>env_message_id = 42, env_sequence = 1, env_commit_results = [False, True],
             env_max_commit_attempts = 3\<rparr>
     (begin_turn [])
     [Delta ''ab'' False, Intent ''line'', Intent ''bar'', Delta ''cd'' True,
      Settled 1 (Omitted ''timeout''), EndOfStream, Settled 0 (Ready ''c0'' ''{}'')])) = [1, 0]"
proof -
  have st: "state (turn_run \<lparr>env_message_id = 42, env_sequence = 1, env_commit_results = [False, True],
             env_max_commit_attempts = 3\<rparr>
     (begin_turn [])
     [Delta ''ab'' False, Intent ''line'', Intent ''bar'', Delta ''cd'' True,
      Settled 1 (Omitted ''timeout''), EndOfStream, Settled 0 (Ready ''c0'' ''{}'')]) = COMPLETE"
    unfolding example_turn by (simp add: state_def)
  from complete_counts_every_chart_once[OF refl st] st show ?thesis
    unfolding example_turn
    by (simp add: event_ordinals_def event_ordinal_def List.map_filter_def)
qed

theorem excess_intents_are_rejected_witness:
  "intents
     (turn_run \<lparr>env_message_id = 42, env_sequence = 1, env_commit_results = [False, True],
             env_max_commit_attempts = 3\<rparr>
        (begin_turn [])
        [Intent ''a'', Intent ''b'', Intent ''c'', Intent ''d'', Intent ''e'', Intent ''f'',
         Intent ''g'', EndOfStream, Intent ''h'']) = [''a'', ''b'', ''c'', ''d'', ''e''] \<and>
   admissions
     (turn_run \<lparr>env_message_id = 42, env_sequence = 1, env_commit_results = [False, True],
             env_max_commit_attempts = 3\<rparr>
        (begin_turn [])
        [Intent ''a'', Intent ''b'', Intent ''c'', Intent ''d'', Intent ''e'', Intent ''f'',
         Intent ''g'', EndOfStream, Intent ''h'']) =
     [Dispatched 0, Dispatched 1, Dispatched 2, Dispatched 3, Dispatched 4,
      Rejected PolicyError, Rejected PolicyError]"
  using excess_intents_are_rejected
          [OF refl refl, of "\<lparr>env_message_id = 42, env_sequence = 1, env_commit_results = [False, True],
             env_max_commit_attempts = 3\<rparr>" "[]"
             "[Intent ''a'', Intent ''b'', Intent ''c'', Intent ''d'', Intent ''e'', Intent ''f'',
               Intent ''g'', EndOfStream, Intent ''h'']"]
  by (simp add: detected_def ends_generation_def is_failure_input_def intent_kind_def
        List.map_filter_def max_charts_def upt_rec eval_nat_numeral)

theorem chart_failure_is_absorbed_witness:
  "map_of (settled (turn_step \<lparr>env_message_id = 42, env_sequence = 1, env_commit_results = [False, True],
             env_max_commit_attempts = 3\<rparr>
      (turn_run \<lparr>env_message_id = 42, env_sequence = 1, env_commit_results = [False, True],
             env_max_commit_attempts = 3\<rparr>
         (begin_turn [])
         [Delta ''ab'' False, Intent ''line'', Intent ''bar''])
      (Settled 1 (Omitted ''timeout'')))) 1 = Some (Omitted ''timeout'') \<and>
   EvChartOmitted 1 ''timeout'' \<in> set (out (turn_step \<lparr>env_message_id = 42, env_sequence = 1, env_commit_results = [False, True],
             env_max_commit_attempts = 3\<rparr>
      (turn_run \<lparr>env_message_id = 42, env_sequence = 1, env_commit_results = [False, True],
             env_max_commit_attempts = 3\<rparr>
         (begin_turn [])
         [Delta ''ab'' False, Intent ''line'', Intent ''bar''])
      (Settled 1 (Omitted ''timeout'')))) \<and>
   progress (turn_run \<lparr>env_message_id = 42, env_sequence = 1, env_commit_results = [False, True],
             env_max_commit_attempts = 3\<rparr>
      (turn_run \<lparr>env_message_id = 42, env_sequence = 1, env_commit_results = [False, True],
             env_max_commit_attempts = 3\<rparr>
         (begin_turn [])
         [Delta ''ab'' False, Intent ''line'', Intent ''bar''])
      (Settled 1 (Omitted ''timeout'') #
       [EndOfStream, Settled 0 (Ready ''c0'' ''{}'')])) = COMPLETE \<and>
   \<lparr>art_ordinal = 1, art_kind = ''bar'', art_outcome = Omitted ''timeout''\<rparr>
     \<in> set (p_charts (last (committed (turn_run \<lparr>env_message_id = 42, env_sequence = 1, env_commit_results = [False, True],
             env_max_commit_attempts = 3\<rparr>
      (turn_run \<lparr>env_message_id = 42, env_sequence = 1, env_commit_results = [False, True],
             env_max_commit_attempts = 3\<rparr>
         (begin_turn [])
         [Delta ''ab'' False, Intent ''line'', Intent ''bar''])
      (Settled 1 (Omitted ''timeout'') #
       [EndOfStream, Settled 0 (Ready ''c0'' ''{}'')])))))"
proof -
  let ?env = "\<lparr>env_message_id = 42, env_sequence = 1, env_commit_results = [False, True],
             env_max_commit_attempts = 3\<rparr>"
  let ?t = "turn_run ?env (begin_turn []) [Delta ''ab'' False, Intent ''line'', Intent ''bar'']"
  let ?rest = "[EndOfStream, Settled 0 (Ready ''c0'' ''{}'')]"
  have r: "running ?t" unfolding example_streaming_turn by (simp add: running_def)
  have i: "1 < length (intents ?t)" unfolding example_streaming_turn by simp
  have u: "map_of (settled ?t) 1 = None" unfolding example_streaming_turn by simp
  have c: "progress (turn_run ?env ?t (Settled 1 (Omitted ''timeout'') # ?rest)) = COMPLETE"
    unfolding example_streaming_turn
    by (simp add: turn_run_def emit_def finish_if_drained_def finish_def persist_def
          commit_succeeds_def all_settled_def running_def chart_event_def upt_rec)
  from chart_failure_is_absorbed[OF refl r i u, of "''timeout''"] c
  show ?thesis
    unfolding example_streaming_turn by simp
qed

theorem complete_turn_persists_streamed_content_witness:
  "state (turn_run \<lparr>env_message_id = 42, env_sequence = 1, env_commit_results = [False, True],
             env_max_commit_attempts = 3\<rparr>
     (begin_turn [])
     [Delta ''ab'' False, Intent ''line'', Intent ''bar'', Delta ''cd'' True,
      Settled 1 (Omitted ''timeout''), EndOfStream, Settled 0 (Ready ''c0'' ''{}'')]) = COMPLETE \<and>
   committed (turn_run \<lparr>env_message_id = 42, env_sequence = 1, env_commit_results = [False, True],
             env_max_commit_attempts = 3\<rparr>
     (begin_turn [])
     [Delta ''ab'' False, Intent ''line'', Intent ''bar'', Delta ''cd'' True,
      Settled 1 (Omitted ''timeout''), EndOfStream, Settled 0 (Ready ''c0'' ''{}'')]) =
     [\<lparr>p_role = assistant, p_content = ''abcd'', p_sequence = 1, p_status = StatusComplete,
       p_charts = [\<lparr>art_ordinal = 0, art_kind = ''line'', art_outcome = Ready ''c0'' ''{}''\<rparr>,
                   \<lparr>art_ordinal = 1, art_kind = ''bar'', art_outcome = Omitted ''timeout''\<rparr>]\<rparr>] \<and>
   chunk_contents (out (turn_run \<lparr>env_message_id = 42, env_sequence = 1, env_commit_results = [False, True],
             env_max_commit_attempts = 3\<rparr>
     (begin_turn [])
     [Delta ''ab'' False, Intent ''line'', Intent ''bar'', Delta ''cd'' True,
      Settled 1 (Omitted ''timeout''), EndOfStream, Settled 0 (Ready ''c0'' ''{}'')])) = [''ab'', ''cd''] \<and>
   accumulatedContent
     (run default_options (CallConnect ''s1'' ''q'' # Open 0 # wire_chunks 0 (out (turn_run \<lparr>env_message_id = 42, env_sequence = 1, env_commit_results = [False, True],
             env_max_commit_attempts = 3\<rparr>
     (begin_turn [])
     [Delta ''ab'' False, Intent ''line'', Intent ''bar'', Delta ''cd'' True,
      Settled 1 (Omitted ''timeout''), EndOfStream, Settled 0 (Ready ''c0'' ''{}'')])))) = ''abcd''"
proof -
  have st: "state (turn_run \<lparr>env_message_id = 42, env_sequence = 1, env_commit_results = [False, True],
             env_max_commit_attempts = 3\<rparr>
     (begin_turn [])
     [Delta ''ab'' False, Intent ''line'', Intent ''bar'', Delta ''cd'' True,
      Settled 1 (Omitted ''timeout''), EndOfStream, Settled 0 (Ready ''c0'' ''{}'')]) = COMPLETE"
    unfolding example_turn by (simp add: state_def)
  from complete_turn_persists_streamed_content
         [OF refl st, of default_options "''s1''" "''q''"] st
  show ?thesis
    unfolding example_turn
    by (simp add: chunk_contents_def chunk_content_def List.map_filter_def)
qed

text \<open>The component of session \<open>s1\<close> after its connection has dropped once.\<close>

lemma example_dropped_chat:
  "hook (chat_sse default_options ''s1'' ''t'' (ConnectionError 0 False) streaming_chat) =
     run default_options
       ([CallConnect ''s1'' ''q'', Open 0,
         Chunk 0 (Some \<lparr>content = ''ab'', is_final = False\<rparr>)] @ [ConnectionError 0 False]) \<and>
   timers (hook (chat_sse default_options ''s1'' ''t'' (ConnectionError 0 False) streaming_chat)) =
     [(1, ''s1'', ''q'')] \<and>
   sources (hook (chat_sse default_options ''s1'' ''t'' (ConnectionError 0 False) streaming_chat)) =
     [(''s1'', ''q'')] \<and>
   requests (chat_sse default_options ''s1'' ''t'' (ConnectionError 0 False) streaming_chat) =
     [ListMessages ''s1'', CreateMessage ''s1'' ''q'', ListMessages ''s1'']"
proof -
  have h: "hook streaming_chat =
      run default_options
        [CallConnect ''s1'' ''q'', Open 0, Chunk 0 (Some \<lparr>content = ''ab'', is_final = False\<rparr>)]"
    by (simp add: streaming_chat_def)
  have l: "live (hook streaming_chat) 0"
    unfolding h example_dropped_stream by (simp add: live_def)
  have a: "reconnectAttemptsRef (hook streaming_chat) < maxReconnectAttempts default_options"
    unfolding h example_dropped_stream by (simp add: default_options_def)
  note k = chat_drop_sets_timeout[OF h l a refl, of "''s1''" "''t''"]
  have v: "timers (hook streaming_chat) = []" "next_timer (hook streaming_chat) = 1"
    "sources (hook streaming_chat) = [(''s1'', ''q'')]"
    unfolding h example_dropped_stream by simp_all
  have r: "requests streaming_chat =
      [ListMessages ''s1'', CreateMessage ''s1'' ''q'', ListMessages ''s1'']"
    by (simp add: streaming_chat_def)
  have k1: "timers (hook (chat_sse default_options ''s1'' ''t'' (ConnectionError 0 False)
                streaming_chat)) = [(1, ''s1'', ''q'')]"
    using k[THEN conjunct1] unfolding v by simp
  have k2: "sources (hook (chat_sse default_options ''s1'' ''t'' (ConnectionError 0 False)
                streaming_chat)) = [(''s1'', ''q'')]"
    using k[THEN conjunct2, THEN conjunct1] unfolding v by simp
  note k3 = k[THEN conjunct2, THEN conjunct2, THEN conjunct1]
  note k4 = k[THEN conjunct2, THEN conjunct2, THEN conjunct2, unfolded r]
  show ?thesis
    by (intro conjI) (rule k1 k2 k3 k4)+
qed

text \<open>
  The claim as written has the reconnecting client re-read history instead of re-attaching
  to the live stream. The component does the opposite when its connection drops in the middle
  of an answer: the hook's timeout calls \<open>connect\<close> again, which opens a second EventSource
  on the stream of the same session and query, and no history request is sent.
\<close>

theorem reconnect_reopens_stream_counterexample:
  "\<not> reconnects_by_history streaming_chat
       (chat_sse default_options ''s1'' ''t'' (Timeout 1)
          (chat_sse default_options ''s1'' ''t'' (ConnectionError 0 False) streaming_chat))"
proof -
  let ?c1 = "chat_sse default_options ''s1'' ''t'' (ConnectionError 0 False) streaming_chat"
  have m: "(1, ''s1'', ''q'') \<in> set (timers (hook ?c1))"
    unfolding example_dropped_chat[THEN conjunct2, THEN conjunct1] by simp
  note k = chat_timeout_reopens_stream[OF example_dropped_chat[THEN conjunct1] m refl,
             of "''s1''" "''t''"]
  have "length (sources (hook (chat_sse default_options ''s1'' ''t'' (Timeout 1) ?c1))) = 2"
    unfolding k[THEN conjunct1]
      example_dropped_chat[THEN conjunct2, THEN conjunct2, THEN conjunct1] by simp
  moreover have "length (sources (hook streaming_chat)) = 1"
    unfolding streaming_chat_def chat.simps example_dropped_stream by simp
  ultimately show ?thesis
    by (simp add: reconnects_by_history_def)
qed

theorem disconnected_turn_completes_and_client_comes_back_witness:
  "state (turn_run \<lparr>env_message_id = 42, env_sequence = 1, env_commit_results = [False, True],
             env_max_commit_attempts = 3\<rparr>
     (begin_turn [])
     ([Delta ''ab'' False, Intent ''line''] @ ClientDisconnected #
      [Delta ''cd'' True, EndOfStream, Settled 0 (Omitted ''timeout'')])) = CANCELLED \<and>
   committed (turn_run \<lparr>env_message_id = 42, env_sequence = 1, env_commit_results = [False, True],
             env_max_commit_attempts = 3\<rparr>
     (begin_turn [])
     ([Delta ''ab'' False, Intent ''line''] @ ClientDisconnected #
      [Delta ''cd'' True, EndOfStream, Settled 0 (Omitted ''timeout'')])) =
     [\<lparr>p_role = assistant, p_content = ''abcd'', p_sequence = 1, p_status = StatusComplete,
       p_charts = [\<lparr>art_ordinal = 0, art_kind = ''line'', art_outcome = Omitted ''timeout''\<rparr>]\<rparr>] \<and>
   requests (mount ''s1'' initial_chat) = [ListMessages ''s1''] \<and>
   hook (mount ''s1'' initial_chat) = initial \<and>
   requests (mount ''temp-session-1'' initial_chat) = [] \<and>
   timers (hook (chat_sse default_options ''s1'' ''t'' (ConnectionError 0 False) streaming_chat)) =
     [(1, ''s1'', ''q'')] \<and>
   sources
     (hook (chat_sse default_options ''s1'' ''t'' (Timeout 1)
        (chat_sse default_options ''s1'' ''t'' (ConnectionError 0 False) streaming_chat))) =
     [(''s1'', ''q''), (''s1'', ''q'')] \<and>
   requests
     (chat_sse default_options ''s1'' ''t'' (Timeout 1)
        (chat_sse default_options ''s1'' ''t'' (ConnectionError 0 False) streaming_chat)) =
     [ListMessages ''s1'', CreateMessage ''s1'' ''q'', ListMessages ''s1''] \<and>
   sources (hook (chat_sse default_options ''s1'' ''t'' (ConnectionError 0 True) streaming_chat)) =
     [(''s1'', ''q'')] \<and>
   timers (hook (chat_sse default_options ''s1'' ''t'' (ConnectionError 0 True) streaming_chat)) =
     [] \<and>
   requests (chat_sse default_options ''s1'' ''t'' (ConnectionError 0 True) streaming_chat) =
     [ListMessages ''s1'', CreateMessage ''s1'' ''q'', ListMessages ''s1'']"
proof -
  let ?env = "\<lparr>env_message_id = 42, env_sequence = 1, env_commit_results = [False, True],
             env_max_commit_attempts = 3\<rparr>"
  let ?pre = "[Delta ''ab'' False, Intent ''line'']"
  let ?post = "[Delta ''cd'' True, EndOfStream, Settled 0 (Omitted ''timeout'')]"
  let ?evs = "[CallConnect ''s1'' ''q'', Open 0,
               Chunk 0 (Some \<lparr>content = ''ab'', is_final = False\<rparr>)]"
  let ?c1 = "chat_sse default_options ''s1'' ''t'' (ConnectionError 0 False) streaming_chat"
  have r: "running (turn_run ?env (begin_turn []) ?pre)"
    by (simp add: turn_run_def begin_turn_def emit_def running_def max_charts_def)
  have h: "hook streaming_chat = run default_options ?evs"
    by (simp add: streaming_chat_def)
  have l: "live (hook streaming_chat) 0"
    unfolding h example_dropped_stream by (simp add: live_def)
  have a: "reconnectAttemptsRef (hook streaming_chat) < maxReconnectAttempts default_options"
    unfolding h example_dropped_stream by (simp add: default_options_def)
  have m: "(1, ''s1'', ''q'') \<in> set (timers (hook ?c1))"
    unfolding example_dropped_chat[THEN conjunct2, THEN conjunct1] by simp
  have nt: "\<not> temp_session ''s1''" by (simp add: temp_session_def)
  have v: "timers (hook streaming_chat) = []" "next_timer (hook streaming_chat) = 1"
    "sources (hook streaming_chat) = [(''s1'', ''q'')]"
    unfolding h example_dropped_stream by simp_all
  have q: "requests streaming_chat =
      [ListMessages ''s1'', CreateMessage ''s1'' ''q'', ListMessages ''s1'']"
    by (simp add: streaming_chat_def)
  have i: "requests initial_chat = []" "hook initial_chat = initial"
    by (simp_all add: initial_chat_def)
  note T = disconnected_turn_completes_and_client_comes_back
         [OF refl r refl refl h l refl refl example_dropped_chat[THEN conjunct1] m refl,
          where post = ?post and sessionId = "''s1''" and now = "''t''"
            and ?c0.0 = initial_chat]
  note A = T[THEN conjunct1, THEN conjunct2, THEN conjunct1]
  have B: "committed (turn_run ?env (begin_turn []) (?pre @ ClientDisconnected # ?post)) =
     [\<lparr>p_role = assistant, p_content = ''abcd'', p_sequence = 1, p_status = StatusComplete,
       p_charts = [\<lparr>art_ordinal = 0, art_kind = ''line'', art_outcome = Omitted ''timeout''\<rparr>]\<rparr>]"
    unfolding example_cancelled_turn by simp
  note M = T[THEN conjunct2, THEN conjunct1]
  note M1 = M[THEN conjunct1, THEN mp, OF nt, unfolded i append.simps]
  note M2 = M[THEN conjunct2, THEN conjunct2, unfolded i]
  have ts: "temp_session ''temp-session-1''" by (simp add: temp_session_def)
  note M3 = disconnected_turn_completes_and_client_comes_back
         [OF refl r refl refl h l refl refl example_dropped_chat[THEN conjunct1] m refl,
          where post = ?post and sessionId = "''temp-session-1''" and now = "''t''"
            and ?c0.0 = initial_chat,
          THEN conjunct2, THEN conjunct1, THEN conjunct2, THEN conjunct1, THEN mp, OF ts,
          unfolded i]
  note D = T[THEN conjunct2, THEN conjunct2, THEN conjunct1, THEN mp, OF a]
  have D1: "timers (hook ?c1) = [(1, ''s1'', ''q'')]"
    using D[THEN conjunct1] unfolding v by simp
  note R = T[THEN conjunct2, THEN conjunct2, THEN conjunct2, THEN conjunct1]
  have R1: "sources (hook (chat_sse default_options ''s1'' ''t'' (Timeout 1) ?c1)) =
              [(''s1'', ''q''), (''s1'', ''q'')]"
    using R[THEN conjunct1]
    unfolding example_dropped_chat[THEN conjunct2, THEN conjunct2, THEN conjunct1] by simp
  have R2: "requests (chat_sse default_options ''s1'' ''t'' (Timeout 1) ?c1) =
              [ListMessages ''s1'', CreateMessage ''s1'' ''q'', ListMessages ''s1'']"
    using R[THEN conjunct2, THEN conjunct2, THEN conjunct2, THEN conjunct2]
    unfolding example_dropped_chat[THEN conjunct2, THEN conjunct2, THEN conjunct2] by simp
  note F = T[THEN conjunct2, THEN conjunct2, THEN conjunct2, THEN conjunct2]
  have F1: "sources (hook (chat_sse default_options ''s1'' ''t'' (ConnectionError 0 True)
              streaming_chat)) = [(''s1'', ''q'')]"
    using F[THEN conjunct1] unfolding v by simp
  have F2: "timers (hook (chat_sse default_options ''s1'' ''t'' (ConnectionError 0 True)
              streaming_chat)) = []"
    using F[THEN conjunct2, THEN conjunct1] unfolding v by simp
  have F3: "requests (chat_sse default_options ''s1'' ''t'' (ConnectionError 0 True)
              streaming_chat) =
              [ListMessages ''s1'', CreateMessage ''s1'' ''q'', ListMessages ''s1'']"
    using F[THEN conjunct2, THEN conjunct2, THEN conjunct2] unfolding q by simp
  show ?thesis
    by (intro conjI) (rule A B M1 M2 M3 D1 R1 R2 F1 F2 F3)+
qed

end
